theory Spec2Isabelle
  imports Complex_Main "HOL-Library.Log_Nat"
begin

unbundle bit_operations_syntax

section \<open>Python preliminaries\<close>

text \<open>
  A Python \<^verbatim>\<open>str\<close> is a \<^typ>\<open>string\<close>, a Python \<^verbatim>\<open>int\<close> is an \<^typ>\<open>int\<close>, a Python
  \<^verbatim>\<open>set\<close> of frame indices is an \<^typ>\<open>int set\<close> (the sets a run builds are finite; where
  a result depends on it the theorems say so).
\<close>

text \<open>\<^verbatim>\<open>sep.join(xs)\<close>\<close>

fun join :: "string \<Rightarrow> string list \<Rightarrow> string" where
  "join sep [] = []"
| "join sep [x] = x"
| "join sep (x # y # ys) = x @ sep @ join sep (y # ys)"

text \<open>Iterating over a \<^verbatim>\<open>str\<close> yields its characters as strings of length one.\<close>

definition chars :: "string \<Rightarrow> string list" where
  "chars s = map (\<lambda>c. [c]) s"

text \<open>\<^verbatim>\<open>s.split('\n')\<close>: the pieces of \<open>s\<close> between line feeds.\<close>

fun split_nl :: "string \<Rightarrow> string list" where
  "split_nl [] = [[]]"
| "split_nl (c # cs) =
     (if c = CHR 0x0A then [] # split_nl cs
      else (case split_nl cs of [] \<Rightarrow> [[c]] | l # ls \<Rightarrow> (c # l) # ls))"

text \<open>
  The lines of a text whose lines are separated by line feeds; the empty text has no line.
  This is how the emitted movie is read back line by line in the statements below.
\<close>

definition text_lines :: "string \<Rightarrow> string list" where
  "text_lines s = (if s = [] then [] else split_nl s)"

section \<open>Building FCEUX movie files\<close>

text \<open>\<^verbatim>\<open>fm2_line\<close>: formats one frame of input with the given button presses.\<close>

definition fm2_line ::
  "bool \<Rightarrow> bool \<Rightarrow> bool \<Rightarrow> bool \<Rightarrow> bool \<Rightarrow> bool \<Rightarrow> bool \<Rightarrow> bool \<Rightarrow> bool \<Rightarrow> string" where
  "fm2_line up down left right a b start select reset =
     join [] (chars
       ((if reset then ''|1|'' else ''|0|'') @
        (if right then ''R'' else ''.'') @
        (if left then ''L'' else ''.'') @
        (if down then ''D'' else ''.'') @
        (if up then ''U'' else ''.'') @
        (if start then ''T'' else ''.'') @
        (if select then ''D'' else ''.'') @
        (if b then ''B'' else ''.'') @
        (if a then ''A'' else ''.'') @
        ''|........||''))"

text \<open>
  \<^verbatim>\<open>maxd\<close>: \<^verbatim>\<open>max(iterable)\<close> raises \<^verbatim>\<open>ValueError\<close> on an empty iterable, and the handler
  returns the default.
\<close>

definition maxd :: "int set \<Rightarrow> int \<Rightarrow> int" where
  "maxd iterable dflt = (if iterable = {} then dflt else Max iterable)"

text \<open>\<^verbatim>\<open>range(lo, hi)\<close> over Python integers.\<close>

definition py_range :: "int \<Rightarrow> int \<Rightarrow> int list" where
  "py_range lo hi = [lo..hi - 1]"

text \<open>
  \<^verbatim>\<open>fm2_lines\<close>: formats many frames using the given button-press sets. The optional
  arguments \<^verbatim>\<open>minFrame\<close> and \<^verbatim>\<open>maxFrame\<close> default to \<^verbatim>\<open>None\<close>.
\<close>

definition fm2_lines ::
  "int set \<Rightarrow> int set \<Rightarrow> int set \<Rightarrow> int set \<Rightarrow> int set \<Rightarrow> int set \<Rightarrow> int set \<Rightarrow> int set \<Rightarrow>
   int set \<Rightarrow> int option \<Rightarrow> int option \<Rightarrow> string list" where
  "fm2_lines up down left right a b start select reset minFrame maxFrame =
     (let minFrame' = (case minFrame of None \<Rightarrow> 0 | Some m \<Rightarrow> m);
          maxFrame' = (case maxFrame of
             None \<Rightarrow> max (maxd up 0) (max (maxd down 0) (max (maxd left 0) (max (maxd right 0)
                      (max (maxd a 0) (max (maxd b 0) (max (maxd start 0) (max (maxd select 0)
                      (maxd reset 0)))))))) + 1
           | Some m \<Rightarrow> m)
      in map (\<lambda>i. fm2_line (i \<in> up) (i \<in> down) (i \<in> left) (i \<in> right) (i \<in> a) (i \<in> b)
                     (i \<in> start) (i \<in> select) (i \<in> reset))
           (py_range minFrame' maxFrame'))"

definition fm2_smb_header :: "string list" where
  "fm2_smb_header =
     [''version 3'',
      ''emuVersion 9828'',
      ''romFilename smb.nes'',
      ''romChecksum base64:jjYwGG411HcjG/j9UOVM3Q=='',
      ''guid 51473540-E9D7-11E3-ADFC-46CE3219C4E0'',
      ''fourscore 0'',
      ''port0 1'',
      ''port1 1'',
      ''port2 0'']"

text \<open>
  \<^verbatim>\<open>fm2_smb(left, right, down, b, a, header=True, padding=True, minFrame=None, maxFrame=None)\<close>
\<close>

definition fm2_smb ::
  "int set \<Rightarrow> int set \<Rightarrow> int set \<Rightarrow> int set \<Rightarrow> int set \<Rightarrow> bool \<Rightarrow> bool \<Rightarrow>
   int option \<Rightarrow> int option \<Rightarrow> string" where
  "fm2_smb left right down b a header padding minFrame maxFrame =
     (let reset = {};
          start = {};
          left' = (if padding then (\<lambda>x. x + 196) ` left else left);
          right' = (if padding then (\<lambda>x. x + 196) ` right else right);
          down' = (if padding then (\<lambda>x. x + 196) ` down else down);
          b' = (if padding then (\<lambda>x. x + 196) ` b else b);
          a' = (if padding then (\<lambda>x. x + 196) ` a else a);
          reset' = (if padding then insert 0 reset else reset);
          start' = (if padding then insert 33 start else start);
          lines = fm2_lines {} down' left' right' a' b' start' {} reset' minFrame maxFrame
      in if header then join [CHR 0x0A] (fm2_smb_header @ lines)
         else join [CHR 0x0A] lines)"

section \<open>Exceptions and configurations\<close>

text \<open>
  A call either returns a value (\<open>Inr\<close>) or raises (\<open>Inl\<close>); \<open>bind\<close> runs the rest of a
  block only when the statement before it returned.
\<close>

datatype exn = KeyError | TypeError | ValueError | ZeroDivisionError | OverflowError

definition bind :: "exn + 'a \<Rightarrow> ('a \<Rightarrow> exn + 'b) \<Rightarrow> exn + 'b" where
  "bind m f = (case m of Inl e \<Rightarrow> Inl e | Inr v \<Rightarrow> f v)"

text \<open>\<^verbatim>\<open>for i in xs: body\<close>, threading the variables the body assigns.\<close>

fun for_each :: "'i list \<Rightarrow> ('i \<Rightarrow> 's \<Rightarrow> exn + 's) \<Rightarrow> 's \<Rightarrow> exn + 's" where
  "for_each [] body s = Inr s"
| "for_each (i # is) body s = bind (body i s) (for_each is body)"

text \<open>
  A configuration is a dictionary from parameter names to the values of the three kinds of
  parameter the manipulators declare (enumerated strings or integers, bounded integers,
  booleans).
\<close>

datatype pyval = PyStr string | PyInt int | PyBool bool

type_synonym config = "string \<rightharpoonup> pyval"

text \<open>\<^verbatim>\<open>cfg[k]\<close>\<close>

definition getitem :: "config \<Rightarrow> string \<Rightarrow> exn + pyval" where
  "getitem cfg k = (case cfg k of None \<Rightarrow> Inl KeyError | Some v \<Rightarrow> Inr v)"

text \<open>\<^verbatim>\<open>str(n)\<close> and \<^verbatim>\<open>'{}'.format(n)\<close> for the non-negative indices of a \<^verbatim>\<open>range\<close>.\<close>

definition digit_char :: "nat \<Rightarrow> char" where
  "digit_char d = ''0123456789'' ! d"

fun str_nat :: "nat \<Rightarrow> string" where
  "str_nat n = (if n < 10 then [digit_char n] else str_nat (n div 10) @ [digit_char (n mod 10)])"

declare str_nat.simps [simp del]

text \<open>\<^verbatim>\<open>a in b\<close> for two strings: \<open>a\<close> occurs in \<open>b\<close> as a substring.\<close>

fun str_in :: "string \<Rightarrow> string \<Rightarrow> bool" where
  "str_in a [] = (a = [])"
| "str_in a (c # cs) = (take (length a) (c # cs) = a \<or> str_in a cs)"

text \<open>\<^verbatim>\<open>a in v\<close> for a configuration value: only a string can be searched.\<close>

definition contains :: "string \<Rightarrow> pyval \<Rightarrow> exn + bool" where
  "contains a v = (case v of PyStr s \<Rightarrow> Inr (str_in a s) | _ \<Rightarrow> Inl TypeError)"

text \<open>The integer a value stands for in arithmetic (\<^verbatim>\<open>True\<close> is 1); a string has none.\<close>

definition int_of :: "pyval \<Rightarrow> exn + int" where
  "int_of v = (case v of PyInt n \<Rightarrow> Inr n | PyBool t \<Rightarrow> Inr (if t then 1 else 0)
                | PyStr s \<Rightarrow> Inl TypeError)"

text \<open>\<^verbatim>\<open>start + v\<close> and \<^verbatim>\<open>v & m\<close> with an integer on one side.\<close>

definition add :: "int \<Rightarrow> pyval \<Rightarrow> exn + int" where
  "add n v = bind (int_of v) (\<lambda>d. Inr (n + d))"

definition bitand :: "pyval \<Rightarrow> int \<Rightarrow> exn + int" where
  "bitand v m = bind (int_of v) (\<lambda>n. Inr (n AND m))"

section \<open>Representations\<close>

type_synonym presses = "int set \<times> int set \<times> int set \<times> int set \<times> int set"

subsection \<open>DurationRepresentation\<close>

text \<open>\<^verbatim>\<open>s.update(range(start, start + duration))\<close>\<close>

definition update_range :: "int set \<Rightarrow> int \<Rightarrow> pyval \<Rightarrow> exn + int set" where
  "update_range s start duration =
     bind (add start duration) (\<lambda>stop. Inr (s \<union> set (py_range start stop)))"

text \<open>The body of the first loop of \<^verbatim>\<open>interpret\<close>, on \<open>(left, right, running, start)\<close>.\<close>

definition move_body ::
  "config \<Rightarrow> nat \<Rightarrow> int set \<times> int set \<times> int set \<times> int \<Rightarrow>
   exn + (int set \<times> int set \<times> int set \<times> int)" where
  "move_body cfg i st =
     (case st of (left, right, running, start) \<Rightarrow>
      bind (getitem cfg (''move'' @ str_nat i)) (\<lambda>move.
      bind (getitem cfg (''move_duration'' @ str_nat i)) (\<lambda>move_duration.
      bind (contains ''R'' move) (\<lambda>has_R.
      bind (if has_R then update_range right start move_duration else Inr right) (\<lambda>right.
      bind (contains ''L'' move) (\<lambda>has_L.
      bind (if has_L then update_range left start move_duration else Inr left) (\<lambda>left.
      bind (contains ''B'' move) (\<lambda>has_B.
      bind (if has_B then update_range running start move_duration else Inr running) (\<lambda>running.
      bind (add start move_duration) (\<lambda>start.
      Inr (left, right, running, start)))))))))))"

text \<open>The body of the second loop, on \<open>jumping\<close>.\<close>

definition jump_body :: "config \<Rightarrow> nat \<Rightarrow> int set \<Rightarrow> exn + int set" where
  "jump_body cfg i jumping =
     bind (getitem cfg (''jump_frame'' @ str_nat i)) (\<lambda>jump_frame.
     bind (getitem cfg (''jump_duration'' @ str_nat i)) (\<lambda>jump_duration.
     bind (int_of jump_frame) (\<lambda>jf.
     update_range jumping jf jump_duration)))"

definition DurationRepresentation_interpret :: "config \<Rightarrow> exn + presses" where
  "DurationRepresentation_interpret cfg =
     (let down = {} in
      bind (for_each [0..<1000] (move_body cfg) ({}, {}, {}, 0)) (\<lambda>(left, right, running, start).
      bind (for_each [0..<1000] (jump_body cfg) {}) (\<lambda>jumping.
      Inr (left, right, down, running, jumping))))"

text \<open>
  The parameters \<^verbatim>\<open>DurationRepresentation.manipulator\<close> declares, with their domains:
  \<open>cfg\<close> gives move \<open>i\<close> the symbol \<open>mv i\<close> and the duration \<open>md i\<close>, and jump \<open>i\<close> the frame
  \<open>jf i\<close> and the duration \<open>jd i\<close>.
\<close>

definition move_symbols :: "string list" where
  "move_symbols = [''R'', ''L'', ''RB'', ''LB'', ''N'', ''LR'', ''LRB'', ''R2'', ''RB2'', ''R3'', ''RB3'']"

definition duration_cfg ::
  "config \<Rightarrow> (nat \<Rightarrow> string) \<Rightarrow> (nat \<Rightarrow> int) \<Rightarrow> (nat \<Rightarrow> int) \<Rightarrow> (nat \<Rightarrow> int) \<Rightarrow> bool" where
  "duration_cfg cfg mv md jf jd =
     (\<forall>i<1000.
        cfg (''move'' @ str_nat i) = Some (PyStr (mv i)) \<and> mv i \<in> set move_symbols \<and>
        cfg (''move_duration'' @ str_nat i) = Some (PyInt (md i)) \<and> 1 \<le> md i \<and> md i \<le> 60 \<and>
        cfg (''jump_frame'' @ str_nat i) = Some (PyInt (jf i)) \<and> 0 \<le> jf i \<and> jf i \<le> 24000 \<and>
        cfg (''jump_duration'' @ str_nat i) = Some (PyInt (jd i)) \<and> 1 \<le> jd i \<and> jd i \<le> 32)"

text \<open>The frame cursor \<^verbatim>\<open>start\<close> on entry to iteration \<open>i\<close> of the first loop.\<close>

definition cursor :: "(nat \<Rightarrow> int) \<Rightarrow> nat \<Rightarrow> int" where
  "cursor md i = (\<Sum>j<i. md j)"

text \<open>
  The frames the first \<open>n\<close> move entries give to the button whose letter is \<open>c\<close>: the
  half-open ranges \<open>[cursor, cursor + duration)\<close> of the entries whose symbol has the letter.
\<close>

definition move_frames :: "(nat \<Rightarrow> string) \<Rightarrow> (nat \<Rightarrow> int) \<Rightarrow> char \<Rightarrow> nat \<Rightarrow> int set" where
  "move_frames mv md c n =
     (\<Union>i\<in>{i. i < n \<and> c \<in> set (mv i)}. {cursor md i..<cursor md i + md i})"

text \<open>Two configurations to run the decoder on.\<close>

definition two_moves_cfg :: config where
  "two_moves_cfg k =
     (if k = ''move0'' then Some (PyStr ''R'')
      else if k = ''move1'' then Some (PyStr ''L'')
      else if k = ''move_duration0'' then Some (PyInt 5)
      else if k = ''move_duration1'' then Some (PyInt 3)
      else if take 13 k = ''move_duration'' then Some (PyInt 60)
      else if take 4 k = ''move'' then Some (PyStr ''N'')
      else if take 10 k = ''jump_frame'' then Some (PyInt 7)
      else if take 13 k = ''jump_duration'' then Some (PyInt 2)
      else None)"

definition running_cfg :: config where
  "running_cfg k =
     (if take 13 k = ''move_duration'' then Some (PyInt 2)
      else if take 4 k = ''move'' then Some (PyStr ''RB'')
      else if take 10 k = ''jump_frame'' then Some (PyInt 24000)
      else if take 13 k = ''jump_duration'' then Some (PyInt 32)
      else None)"

subsection \<open>AlphabetRepresentation\<close>

text \<open>The body of the loop of \<^verbatim>\<open>interpret\<close>, on \<open>(left, right, running, jumping)\<close>.\<close>

definition alphabet_body ::
  "config \<Rightarrow> nat \<Rightarrow> int set \<times> int set \<times> int set \<times> int set \<Rightarrow>
   exn + (int set \<times> int set \<times> int set \<times> int set)" where
  "alphabet_body cfg i st =
     (case st of (left, right, running, jumping) \<Rightarrow>
      bind (getitem cfg (str_nat i)) (\<lambda>bits.
      bind (bitand bits 1) (\<lambda>m1.
      bind (bitand bits 2) (\<lambda>m2.
      bind (bitand bits 4) (\<lambda>m4.
      bind (bitand bits 8) (\<lambda>m8.
      Inr (if m1 \<noteq> 0 then insert (int i) left else left,
           if m2 \<noteq> 0 then insert (int i) right else right,
           if m4 \<noteq> 0 then insert (int i) running else running,
           if m8 \<noteq> 0 then insert (int i) jumping else jumping)))))))"

definition AlphabetRepresentation_interpret :: "config \<Rightarrow> exn + presses" where
  "AlphabetRepresentation_interpret cfg =
     (let down = {} in
      bind (for_each [0..<400 * 60] (alphabet_body cfg) ({}, {}, {}, {}))
        (\<lambda>(left, right, running, jumping).
      Inr (left, right, down, running, jumping)))"

text \<open>
  The parameters \<^verbatim>\<open>AlphabetRepresentation.manipulator\<close> declares: one per frame, with a
  value in \<^verbatim>\<open>range(0, 16)\<close>; \<open>cfg\<close> gives frame \<open>i\<close> the value \<open>bits i\<close>.
\<close>

definition alphabet_cfg :: "config \<Rightarrow> (nat \<Rightarrow> int) \<Rightarrow> bool" where
  "alphabet_cfg cfg bits =
     (\<forall>i<400 * 60. cfg (str_nat i) = Some (PyInt (bits i)) \<and> 0 \<le> bits i \<and> bits i < 16)"

text \<open>A configuration to run the decoder on: frame 0 has the value 3 and frame 1 the value 9.\<close>

definition two_frames_cfg :: config where
  "two_frames_cfg k =
     (if k = ''0'' then Some (PyInt 3) else if k = ''1'' then Some (PyInt 9) else Some (PyInt 0))"

section \<open>Floats\<close>

text \<open>
  A Python \<^verbatim>\<open>float\<close> is an IEEE 754 double: a finite value, an infinity or a NaN. A finite
  double is given by the real number it stands for; the sign of a zero is not kept
  (\<^verbatim>\<open>-0.0 == 0.0\<close>).
\<close>

datatype pyfloat = Finite real | PosInf | NegInf | NaN

text \<open>\<open>ilog2 a\<close> is the position of the leading bit of \<open>a > 0\<close>: \<open>2 ^ ilog2 a \<le> a < 2 ^ (ilog2 a + 1)\<close>.\<close>

definition ilog2 :: "real \<Rightarrow> int" where
  "ilog2 a = (if 1 \<le> a then bitlen \<lfloor>a\<rfloor> - 1 else - bitlen (\<lceil>1 / a\<rceil> - 1))"

definition pow2 :: "int \<Rightarrow> real" where
  "pow2 e = (if 0 \<le> e then 2 ^ nat e else 1 / 2 ^ nat (- e))"

text \<open>The nearest integer, a tie going to the even one.\<close>

definition round_half_even :: "real \<Rightarrow> int" where
  "round_half_even x =
     (let f = \<lfloor>x\<rfloor>; d = x - of_int f
      in if d < 1 / 2 then f else if 1 / 2 < d then f + 1 else if even f then f else f + 1)"

text \<open>
  The double an exact result \<open>q\<close> is rounded to (round to nearest, ties to even): 53
  significant bits from the leading bit down, the last place no lower than \<open>2 ^ - 1074\<close>
  (subnormal numbers), and an infinity from \<open>2 ^ 1024\<close> on.
\<close>

definition round_double :: "real \<Rightarrow> pyfloat" where
  "round_double q =
     (if q = 0 then Finite 0
      else let a = \<bar>q\<bar>;
               e = max (ilog2 a) (- 1022) - 52;
               v = of_int (round_half_even (a / pow2 e)) * pow2 e
           in if 2 ^ 1024 \<le> v then (if 0 < q then PosInf else NegInf)
              else Finite (if 0 < q then v else - v))"

text \<open>
  \<^verbatim>\<open>float(n)\<close>, and the conversion of an integer operand of a float operation: the nearest
  double, or \<^verbatim>\<open>OverflowError\<close> when that is beyond the largest double.
\<close>

definition float :: "int \<Rightarrow> exn + real" where
  "float n = (case round_double (of_int n) of Finite v \<Rightarrow> Inr v | _ \<Rightarrow> Inl OverflowError)"

text \<open>\<^verbatim>\<open>x / n\<close> for a finite float \<open>x\<close> and an integer \<open>n\<close>.\<close>

definition truediv :: "real \<Rightarrow> int \<Rightarrow> exn + pyfloat" where
  "truediv x n =
     bind (float n) (\<lambda>y.
     if y = 0 then Inl ZeroDivisionError else Inr (round_double (x / y)))"

text \<open>The product of a finite float \<open>x\<close> and a float.\<close>

definition fmul :: "real \<Rightarrow> pyfloat \<Rightarrow> pyfloat" where
  "fmul x y =
     (case y of
        Finite v \<Rightarrow> round_double (x * v)
      | PosInf \<Rightarrow> if 0 < x then PosInf else if x < 0 then NegInf else NaN
      | NegInf \<Rightarrow> if 0 < x then NegInf else if x < 0 then PosInf else NaN
      | NaN \<Rightarrow> NaN)"

text \<open>\<^verbatim>\<open>n * y\<close> for an integer \<open>n\<close> and a float \<open>y\<close>.\<close>

definition mul :: "int \<Rightarrow> pyfloat \<Rightarrow> exn + pyfloat" where
  "mul n y = bind (float n) (\<lambda>x. Inr (fmul x y))"

section \<open>Fitness functions\<close>

definition Progress :: "bool \<Rightarrow> int \<Rightarrow> int \<Rightarrow> exn + pyfloat" where
  "Progress won x_pos elapsed_frames = bind (float x_pos) (\<lambda>v. Inr (Finite (- v)))"

definition ProgressPlusTimeRemaining :: "bool \<Rightarrow> int \<Rightarrow> int \<Rightarrow> exn + pyfloat" where
  "ProgressPlusTimeRemaining won x_pos elapsed_frames =
     (if won then bind (float (x_pos + 400 * 60 - elapsed_frames)) (\<lambda>v. Inr (Finite (- v)))
      else bind (float x_pos) (\<lambda>v. Inr (Finite (- v))))"

definition ProgressTimesAverageSpeed :: "bool \<Rightarrow> int \<Rightarrow> int \<Rightarrow> exn + pyfloat" where
  "ProgressTimesAverageSpeed won x_pos elapsed_frames =
     bind (float x_pos) (\<lambda>x.
     bind (truediv x elapsed_frames) (\<lambda>speed.
     mul (- x_pos) speed))"

section \<open>The evaluation harness\<close>

text \<open>
  Text is either a \<^verbatim>\<open>str\<close> or a \<^verbatim>\<open>bytes\<close> object. The movie \<^verbatim>\<open>fm2_smb\<close> builds and the
  pattern of \<^verbatim>\<open>run_movie\<close> are \<^verbatim>\<open>str\<close>; the streams that \<^verbatim>\<open>communicate()\<close> returns for
  pipes opened without a text mode are \<^verbatim>\<open>bytes\<close>.
\<close>

datatype pydata = Text string | Bytes string

text \<open>
  \<^verbatim>\<open>f.write(data)\<close> on the file \<^verbatim>\<open>tempfile.NamedTemporaryFile(suffix=".fm2", delete=True)\<close>
  opens: its mode is the default \<^verbatim>\<open>'w+b'\<close>, so only \<^verbatim>\<open>bytes\<close> can be written; the call
  returns the number of bytes written.
\<close>

definition write_binary :: "pydata \<Rightarrow> exn + nat" where
  "write_binary d = (case d of Bytes b \<Rightarrow> Inr (length b) | Text s \<Rightarrow> Inl TypeError)"

text \<open>
  The pattern \<^verbatim>\<open>^(won|died) (\d+) (\d+)$\<close> under \<^verbatim>\<open>re.MULTILINE\<close>: the anchors stand at the
  two ends of a line (lines end at line feeds), so the pattern matches a whole line, and a
  search returns the groups of the first line that matches. The digits of \<^verbatim>\<open>\d\<close> are the
  ASCII digits.
\<close>

definition is_digit :: "char \<Rightarrow> bool" where
  "is_digit c = (c \<in> set ''0123456789'')"

text \<open>The rest of a line after the keyword: \<^verbatim>\<open> (\d+) (\d+)$\<close>.\<close>

definition match_fields :: "string \<Rightarrow> string \<Rightarrow> (string \<times> string \<times> string) option" where
  "match_fields g1 rest =
     (case rest of
        [] \<Rightarrow> None
      | c # rest1 \<Rightarrow>
          if c \<noteq> CHR '' '' then None
          else let g2 = takeWhile is_digit rest1; rest2 = dropWhile is_digit rest1
               in if g2 = [] then None
                  else (case rest2 of
                          [] \<Rightarrow> None
                        | c2 # g3 \<Rightarrow>
                            if c2 = CHR '' '' \<and> g3 \<noteq> [] \<and> list_all is_digit g3
                            then Some (g1, g2, g3) else None))"

definition match_outcome :: "string \<Rightarrow> (string \<times> string \<times> string) option" where
  "match_outcome line =
     (if take 3 line = ''won'' then match_fields ''won'' (drop 3 line)
      else if take 4 line = ''died'' then match_fields ''died'' (drop 4 line)
      else None)"

definition search_lines :: "string \<Rightarrow> (string \<times> string \<times> string) option" where
  "search_lines s =
     (case List.map_filter match_outcome (split_nl s) of [] \<Rightarrow> None | m # ms \<Rightarrow> Some m)"

text \<open>
  \<^verbatim>\<open>re.search(r"^(won|died) (\d+) (\d+)$", data, re.MULTILINE)\<close>: the pattern is a \<^verbatim>\<open>str\<close>,
  and a \<^verbatim>\<open>str\<close> pattern cannot be used on \<^verbatim>\<open>bytes\<close>.
\<close>

definition re_search :: "pydata \<Rightarrow> exn + (string \<times> string \<times> string) option" where
  "re_search d = (case d of Text s \<Rightarrow> Inr (search_lines s) | Bytes b \<Rightarrow> Inl TypeError)"

text \<open>\<^verbatim>\<open>int(s)\<close> for a string of decimal digits.\<close>

definition int_of_digits :: "string \<Rightarrow> int" where
  "int_of_digits s = foldl (\<lambda>n c. 10 * n + (of_char c - 48)) 0 s"

text \<open>
  \<^verbatim>\<open>run_movie\<close>. The emulator is a process outside the program: it is the function
  \<open>emulator\<close> from the contents of the movie file it plays to the bytes of the two streams
  \<open>(stdout, stderr)\<close> that \<^verbatim>\<open>communicate()\<close> captures. The name of the temporary file, the
  command line and the diagnostic \<^verbatim>\<open>print\<close> calls, here and in \<^verbatim>\<open>compile\<close>, are not
  modelled.
\<close>

definition run_movie :: "(string \<Rightarrow> string \<times> string) \<Rightarrow> string \<Rightarrow> exn + (string \<times> int \<times> int)" where
  "run_movie emulator fm2 =
     bind (write_binary (Text fm2)) (\<lambda>written.
     case emulator fm2 of (stdout, stderr) \<Rightarrow>
       bind (re_search (Bytes stdout)) (\<lambda>match.
       case match of
         None \<Rightarrow> Inl ValueError
       | Some (g1, g2, g3) \<Rightarrow> Inr (g1, int_of_digits g2, int_of_digits g3)))"

text \<open>\<^verbatim>\<open>opentuner.resultsdb.models.Result(state=..., time=...)\<close>; \<^verbatim>\<open>float('inf')\<close> is \<open>PosInf\<close>.\<close>

record result =
  state :: string
  time :: pyfloat

text \<open>
  \<^verbatim>\<open>SMBMI.compile\<close>, for the representation and the fitness function chosen on the command
  line (\<^verbatim>\<open>args.representation.interpret\<close> and \<^verbatim>\<open>args.fitness_function\<close>). Only a
  \<^verbatim>\<open>ValueError\<close> of \<^verbatim>\<open>run_movie\<close> is handled; whatever else is raised leaves the method.
\<close>

definition compile ::
  "(config \<Rightarrow> exn + presses) \<Rightarrow> (bool \<Rightarrow> int \<Rightarrow> int \<Rightarrow> exn + pyfloat) \<Rightarrow>
   (string \<Rightarrow> string \<times> string) \<Rightarrow> config \<Rightarrow> exn + result" where
  "compile interpret fitness_function emulator cfg =
     bind (interpret cfg) (\<lambda>(left, right, down, running, jumping).
     let fm2 = fm2_smb left right down running jumping True True None None
     in (case run_movie emulator fm2 of
           Inl e \<Rightarrow>
             if e = ValueError then Inr \<lparr>state = ''ERROR'', time = PosInf\<rparr> else Inl e
         | Inr (wl, x_pos, framecount) \<Rightarrow>
             bind (fitness_function (str_in ''won'' wl) x_pos framecount) (\<lambda>t.
             Inr \<lparr>state = ''OK'', time = t\<rparr>)))"

section \<open>Properties of the movie encoding\<close>

subsection \<open>Strings, lines and ranges\<close>

lemma join_chars: "join [] (chars s) = s"
proof (induction s)
  case Nil show ?case by (simp add: chars_def)
next
  case (Cons c s) then show ?case by (cases s) (simp_all add: chars_def)
qed

lemma length_py_range: "length (py_range lo hi) = nat (hi - lo)"
  by (simp add: py_range_def)

lemma nth_py_range: "k < nat (hi - lo) \<Longrightarrow> py_range lo hi ! k = lo + int k"
  by (simp add: py_range_def)

lemma set_py_range: "set (py_range lo hi) = {lo..<hi}"
  by (auto simp add: py_range_def)

lemma split_nl_no_nl: "CHR 0x0A \<notin> set l \<Longrightarrow> split_nl l = [l]"
  by (induction l) auto

lemma split_nl_append: "CHR 0x0A \<notin> set l \<Longrightarrow> split_nl (l @ CHR 0x0A # r) = l # split_nl r"
  by (induction l) auto

lemma split_nl_join:
  "ls \<noteq> [] \<Longrightarrow> \<forall>l\<in>set ls. CHR 0x0A \<notin> set l \<Longrightarrow> split_nl (join [CHR 0x0A] ls) = ls"
proof (induction "[CHR 0x0A]" ls rule: join.induct)
  case 1 then show ?case by simp
next
  case (2 x) then show ?case by (simp add: split_nl_no_nl)
next
  case (3 x y ys) then show ?case by (simp add: split_nl_append)
qed

lemma join_eq_Nil: "join sep ls = [] \<Longrightarrow> \<forall>l\<in>set ls. l \<noteq> [] \<Longrightarrow> ls = []"
  by (induction sep ls rule: join.induct) auto

lemma text_lines_join:
  assumes "\<forall>l\<in>set ls. l \<noteq> [] \<and> CHR 0x0A \<notin> set l"
  shows "text_lines (join [CHR 0x0A] ls) = ls"
proof (cases "ls = []")
  case True then show ?thesis by (simp add: text_lines_def)
next
  case False
  with assms have "join [CHR 0x0A] ls \<noteq> []" using join_eq_Nil by blast
  with assms False show ?thesis by (simp add: text_lines_def split_nl_join)
qed

lemma fm2_line_eq:
  "fm2_line up down left right a b start select reset =
     (if reset then ''|1|'' else ''|0|'') @
        [if right then CHR ''R'' else CHR ''.'',
         if left then CHR ''L'' else CHR ''.'',
         if down then CHR ''D'' else CHR ''.'',
         if up then CHR ''U'' else CHR ''.'',
         if start then CHR ''T'' else CHR ''.'',
         if select then CHR ''D'' else CHR ''.'',
         if b then CHR ''B'' else CHR ''.'',
         if a then CHR ''A'' else CHR ''.''] @ ''|........||''"
  by (simp add: fm2_line_def join_chars)

lemma fm2_line_ok: "fm2_line up down left right a b start select reset \<noteq> [] \<and>
   CHR 0x0A \<notin> set (fm2_line up down left right a b start select reset)"
  by (simp add: fm2_line_eq)

lemma header_ok: "\<forall>l\<in>set fm2_smb_header. l \<noteq> [] \<and> CHR 0x0A \<notin> set l"
  by (simp add: fm2_smb_header_def)

lemma length_fm2_lines:
  "length (fm2_lines up down left right a b start select reset (Some mn) (Some mx)) = nat (mx - mn)"
  by (simp add: fm2_lines_def length_py_range)

lemma nth_fm2_lines:
  "k < nat (mx - mn) \<Longrightarrow>
   fm2_lines up down left right a b start select reset (Some mn) (Some mx) ! k =
     fm2_line (mn + int k \<in> up) (mn + int k \<in> down) (mn + int k \<in> left) (mn + int k \<in> right)
       (mn + int k \<in> a) (mn + int k \<in> b) (mn + int k \<in> start) (mn + int k \<in> select)
       (mn + int k \<in> reset)"
  by (simp add: fm2_lines_def length_py_range nth_py_range)

lemma fm2_lines_ok:
  "\<forall>l\<in>set (fm2_lines up down left right a b start select reset mn mx). l \<noteq> [] \<and> CHR 0x0A \<notin> set l"
  unfolding fm2_lines_def Let_def using fm2_line_ok by simp

lemma text_lines_fm2_smb:
  "text_lines (fm2_smb left right down b a header padding mn mx) =
     (if header then fm2_smb_header else []) @
     fm2_lines {} (if padding then (\<lambda>x. x + 196) ` down else down)
       (if padding then (\<lambda>x. x + 196) ` left else left)
       (if padding then (\<lambda>x. x + 196) ` right else right)
       (if padding then (\<lambda>x. x + 196) ` a else a)
       (if padding then (\<lambda>x. x + 196) ` b else b)
       (if padding then {33} else {}) {} (if padding then {0} else {}) mn mx"
proof -
  have "text_lines (join [CHR 0x0A] (hs @ fm2_lines u d l r a' b' s sl rs mn mx)) =
        hs @ fm2_lines u d l r a' b' s sl rs mn mx"
    if "\<forall>l\<in>set hs. l \<noteq> [] \<and> CHR 0x0A \<notin> set l" for hs u d l r a' b' s sl rs
    using that fm2_lines_ok [of u d l r a' b' s sl rs mn mx]
    by (intro text_lines_join) auto
  from this [of fm2_smb_header] this [of "[]"] header_ok
  show ?thesis by (simp add: fm2_smb_def Let_def)
qed

lemma shift_mem: "(i \<in> (\<lambda>x. x + 196) ` S) = (i - 196 \<in> (S::int set))"
proof
  assume "i \<in> (\<lambda>x. x + 196) ` S" then show "i - 196 \<in> S" by auto
next
  assume "i - 196 \<in> S"
  then have "(i - 196) + 196 \<in> (\<lambda>x. x + 196) ` S" by (rule imageI)
  then show "i \<in> (\<lambda>x. x + 196) ` S" by simp
qed

lemma length_header: "length fm2_smb_header = 9"
  by (simp add: fm2_smb_header_def)

subsection \<open>The frame bound that \<^verbatim>\<open>fm2_lines\<close> computes\<close>

lemma maxd_nonneg: "finite S \<Longrightarrow> \<forall>x\<in>S. 0 \<le> x \<Longrightarrow> maxd S 0 = Max (insert 0 S)"
  by (auto simp add: maxd_def max_def intro: antisym)

lemma Max_insert_Un:
  "finite A \<Longrightarrow> finite B \<Longrightarrow>
   max (Max (insert (c::int) A)) (Max (insert c B)) = Max (insert c (A \<union> B))"
proof -
  assume f: "finite A" "finite B"
  have "Max (insert c A \<union> insert c B) = max (Max (insert c A)) (Max (insert c B))"
    using f by (intro Max_Un) auto
  then show ?thesis by simp
qed

lemma auto_maxFrame:
  assumes "finite (up \<union> down \<union> left \<union> right \<union> a \<union> b \<union> start \<union> select \<union> reset)"
    and "\<forall>x\<in>up \<union> down \<union> left \<union> right \<union> a \<union> b \<union> start \<union> select \<union> reset. 0 \<le> x"
  shows "max (maxd up 0) (max (maxd down 0) (max (maxd left 0) (max (maxd right 0)
           (max (maxd a 0) (max (maxd b 0) (max (maxd start 0) (max (maxd select 0)
           (maxd reset 0))))))))
         = Max (insert 0 (up \<union> down \<union> left \<union> right \<union> a \<union> b \<union> start \<union> select \<union> reset))"
proof -
  have fin: "finite up" "finite down" "finite left" "finite right" "finite a" "finite b"
    "finite start" "finite select" "finite reset"
    using assms(1) by simp_all
  have nn: "\<forall>x\<in>up. 0 \<le> x" "\<forall>x\<in>down. 0 \<le> x" "\<forall>x\<in>left. 0 \<le> x" "\<forall>x\<in>right. 0 \<le> x"
    "\<forall>x\<in>a. 0 \<le> x" "\<forall>x\<in>b. 0 \<le> x" "\<forall>x\<in>start. 0 \<le> x" "\<forall>x\<in>select. 0 \<le> x"
    "\<forall>x\<in>reset. 0 \<le> x"
    using assms(2) by simp_all
  have m: "maxd up 0 = Max (insert 0 up)" "maxd down 0 = Max (insert 0 down)"
    "maxd left 0 = Max (insert 0 left)" "maxd right 0 = Max (insert 0 right)"
    "maxd a 0 = Max (insert 0 a)" "maxd b 0 = Max (insert 0 b)"
    "maxd start 0 = Max (insert 0 start)" "maxd select 0 = Max (insert 0 select)"
    "maxd reset 0 = Max (insert 0 reset)"
    using fin nn by (simp_all only: maxd_nonneg)
  show ?thesis
    unfolding m using fin by (simp only: Max_insert_Un finite_Un simp_thms Un_assoc)
qed

lemma Max_insert0_nonneg:
  "finite U \<Longrightarrow> \<forall>x\<in>U. (0::int) \<le> x \<Longrightarrow> Max (insert 0 U) = (if U = {} then 0 else Max U)"
  by (auto simp add: max_def intro: antisym)

lemma maxd_33: "finite S \<Longrightarrow> max 33 (maxd S 0) = Max (insert 33 S)"
  by (simp add: maxd_def)

lemma max_chain:
  fixes d l r a b :: int
  shows "max 0 (max d (max l (max r (max a (max b (max 33 (max 0 0))))))) =
   max (max (max (max (max 33 l) (max 33 r)) (max 33 d)) (max 33 b)) (max 33 a)"
proof -
  have a: "max (max 33 p) (max 33 q) = max 33 (max p q)" for p q :: int
    by (simp add: max_def)
  have c: "max (0::int) (max 33 q) = max 33 q" for q :: int
    by (simp add: max_def)
  have "max (0::int) (max d (max l (max r (max a (max b (max 33 (max 0 0))))))) =
        max 0 (max d (max l (max r (max a (max b 33)))))"
    by simp
  also have "\<dots> = max 0 (max 33 (max (max (max (max l r) d) b) a))"
    by (simp only: max.assoc max.commute max.left_commute)
  also have "\<dots> = max 33 (max (max (max (max l r) d) b) a)"
    by (rule c)
  finally show ?thesis by (simp only: a)
qed

lemma padded_maxFrame:
  assumes "finite (left \<union> right \<union> down \<union> b \<union> a)"
  shows "max (maxd {} 0) (max (maxd down 0) (max (maxd left 0) (max (maxd right 0)
           (max (maxd a 0) (max (maxd b 0) (max (maxd {33} 0) (max (maxd {} 0)
           (maxd {0} 0))))))))
         = Max (insert 33 (left \<union> right \<union> down \<union> b \<union> a))"
proof -
  have fin: "finite left" "finite right" "finite down" "finite b" "finite a"
    using assms by simp_all
  have "max (max (max (max (Max (insert 33 left)) (Max (insert 33 right)))
        (Max (insert 33 down))) (Max (insert 33 b))) (Max (insert 33 a)) =
        Max (insert 33 (left \<union> right \<union> down \<union> b \<union> a))"
    using fin by (simp only: Max_insert_Un finite_Un simp_thms)
  then have "max (max (max (max (max 33 (maxd left 0)) (max 33 (maxd right 0)))
        (max 33 (maxd down 0))) (max 33 (maxd b 0))) (max 33 (maxd a 0)) =
        Max (insert 33 (left \<union> right \<union> down \<union> b \<union> a))"
    using fin by (simp only: maxd_33)
  moreover have "maxd {} 0 = 0" "maxd {33} 0 = 33" "maxd {0} 0 = 0"
    by (simp_all add: maxd_def)
  ultimately show ?thesis
    by (simp only: max_chain)
qed

lemma fm2_lines_padded_bounds:
  assumes "finite (left \<union> right \<union> down \<union> b \<union> a)"
  shows "fm2_lines {} down left right a b {33} {} {0} minFrame maxFrame =
         fm2_lines {} down left right a b {33} {} {0}
           (Some (case minFrame of None \<Rightarrow> 0 | Some m \<Rightarrow> m))
           (Some (case maxFrame of
                    None \<Rightarrow> Max (insert 33 (left \<union> right \<union> down \<union> b \<union> a)) + 1
                  | Some m \<Rightarrow> m))"
  unfolding fm2_lines_def Let_def option.case padded_maxFrame [OF assms] ..

subsection \<open>Claims about the movie encoding\<close>

text \<open>
  C1. For all five frame-index sets and explicit bounds \<open>minFrame\<close> and \<open>maxFrame\<close>, the text
  \<^verbatim>\<open>fm2_smb\<close> returns has the nine header lines when the header is requested, followed by
  exactly \<open>maxFrame - minFrame\<close> frame lines (for bounds in order, \<open>minFrame \<le> maxFrame\<close>; the
  range of reversed bounds is empty and gives no line). The frame line of frame \<open>i\<close> carries,
  at the fixed position of each of the five buttons, the button's letter if \<open>i\<close> less the
  padding offset (196 with padding, 0 without) is in the button's set, and the placeholder
  \<open>.\<close> otherwise.
\<close>

theorem fm2_smb_frame_lines:
  "(let ls = text_lines (fm2_smb left right down b a header padding (Some minFrame) (Some maxFrame));
        n = nat (maxFrame - minFrame);
        h = (if header then 9 else 0);
        off = (if padding then 196 else 0)
    in length ls = h + n \<and>
       (minFrame \<le> maxFrame \<longrightarrow> int (length ls - h) = maxFrame - minFrame) \<and>
       take h ls = (if header then fm2_smb_header else []) \<and>
       (\<forall>k<n. ls ! (h + k) =
          (if padding \<and> minFrame + int k = 0 then ''|1|'' else ''|0|'') @
          [if minFrame + int k - off \<in> right then CHR ''R'' else CHR ''.'',
           if minFrame + int k - off \<in> left then CHR ''L'' else CHR ''.'',
           if minFrame + int k - off \<in> down then CHR ''D'' else CHR ''.'',
           CHR ''.'',
           if padding \<and> minFrame + int k = 33 then CHR ''T'' else CHR ''.'',
           CHR ''.'',
           if minFrame + int k - off \<in> b then CHR ''B'' else CHR ''.'',
           if minFrame + int k - off \<in> a then CHR ''A'' else CHR ''.''] @
          ''|........||''))"
  unfolding Let_def text_lines_fm2_smb
  by (simp add: length_header length_fm2_lines nth_append nth_fm2_lines fm2_line_eq shift_mem)

text \<open>An instance with header and padding: frames 196 to 198 show the presses of frames 0 to 2.\<close>

theorem fm2_smb_frame_lines_witness:
  "(let ls = text_lines (fm2_smb {1} {0, 2} {} {2} {0} True True (Some 196) (Some 199))
    in length ls = 12 \<and> take 9 ls = fm2_smb_header \<and>
       ls ! 9 = ''|0|R......A|........||'' \<and>
       ls ! 10 = ''|0|.L......|........||'' \<and>
       ls ! 11 = ''|0|R.....B.|........||'')"
proof -
  let ?ls = "text_lines (fm2_smb {1} {0, 2} {} {2} {0} True True (Some 196) (Some 199))"
  note th = fm2_smb_frame_lines [of "{1}" "{0, 2}" "{}" "{2}" "{0}" True True 196 199,
      unfolded Let_def, simplified]
  from th have len: "length ?ls = 12" and hd: "take 9 ?ls = fm2_smb_header"
    and nth: "\<And>k. k < 3 \<Longrightarrow> ?ls ! (9 + k) =
          ''|0|'' @
          [if 196 + int k - 196 \<in> {0, 2} then CHR ''R'' else CHR ''.'',
           if 196 + int k - 196 \<in> {1} then CHR ''L'' else CHR ''.'',
           CHR ''.'', CHR ''.'', CHR ''.'', CHR ''.'',
           if 196 + int k - 196 \<in> {2} then CHR ''B'' else CHR ''.'',
           if 196 + int k - 196 \<in> {0} then CHR ''A'' else CHR ''.''] @
          ''|........||''"
    by simp_all
  from nth [of 0] nth [of 1] nth [of 2] len hd show ?thesis
    by (simp add: Let_def)
qed

text \<open>
  C4 (as amended). When \<^verbatim>\<open>maxFrame\<close> is omitted, \<^verbatim>\<open>fm2_lines\<close> computes it, for finite sets
  of non-negative frame indices, as one past the largest frame index in any of its sets when
  some set is not empty, and as 1, whatever \<open>minFrame\<close> is, when every set is empty; with
  both bounds omitted and every set empty it emits one frame line, all placeholders.
\<close>

theorem fm2_lines_auto_maxFrame:
  assumes "finite (up \<union> down \<union> left \<union> right \<union> a \<union> b \<union> start \<union> select \<union> reset)"
    and "\<forall>x\<in>up \<union> down \<union> left \<union> right \<union> a \<union> b \<union> start \<union> select \<union> reset. 0 \<le> x"
  shows "fm2_lines up down left right a b start select reset minFrame None =
     fm2_lines up down left right a b start select reset minFrame
       (Some (if up \<union> down \<union> left \<union> right \<union> a \<union> b \<union> start \<union> select \<union> reset = {} then 1
              else Max (up \<union> down \<union> left \<union> right \<union> a \<union> b \<union> start \<union> select \<union> reset) + 1))
     \<and> fm2_lines {} {} {} {} {} {} {} {} {} None None = [''|0|........|........||'']"
proof -
  define U where "U = up \<union> down \<union> left \<union> right \<union> a \<union> b \<union> start \<union> select \<union> reset"
  define M where "M = max (maxd up 0) (max (maxd down 0) (max (maxd left 0) (max (maxd right 0)
           (max (maxd a 0) (max (maxd b 0) (max (maxd start 0) (max (maxd select 0)
           (maxd reset 0))))))))"
  have "M = Max (insert 0 U)"
    unfolding M_def U_def by (rule auto_maxFrame [OF assms])
  also have "\<dots> = (if U = {} then 0 else Max U)"
    unfolding U_def by (rule Max_insert0_nonneg [OF assms])
  finally have M: "M + 1 = (if U = {} then 1 else Max U + 1)" by simp
  have "fm2_lines up down left right a b start select reset minFrame None =
     fm2_lines up down left right a b start select reset minFrame (Some (M + 1))"
    unfolding fm2_lines_def Let_def M_def by (simp only: option.case)
  then have "fm2_lines up down left right a b start select reset minFrame None =
     fm2_lines up down left right a b start select reset minFrame
       (Some (if U = {} then 1 else Max U + 1))"
    by (simp only: M)
  moreover have "fm2_lines {} {} {} {} {} {} {} {} {} None None = [''|0|........|........||'']"
    by (simp add: fm2_lines_def maxd_def py_range_def fm2_line_eq)
  ultimately show ?thesis unfolding U_def by (rule conjI)
qed

theorem fm2_lines_auto_maxFrame_witness:
  "fm2_lines {} {} {1} {0, 2} {0} {2} {} {} {} None None =
     [''|0|R......A|........||'', ''|0|.L......|........||'', ''|0|R.....B.|........||'']"
proof -
  have "fm2_lines {} {} {1} {0, 2} {0} {2} {} {} {} None None =
        fm2_lines {} {} {1} {0, 2} {0} {2} {} {} {} None (Some 3)"
    using fm2_lines_auto_maxFrame [of "{}" "{}" "{1}" "{0, 2}" "{0}" "{2}" "{}" "{}" "{}" None]
    by simp
  also have "\<dots> = [''|0|R......A|........||'', ''|0|.L......|........||'',
      ''|0|R.....B.|........||'']"
    by (simp add: fm2_lines_def py_range_def fm2_line_eq upto_rec1 [of 0 2] upto_rec1 [of 1 2])
  finally show ?thesis .
qed

text \<open>
  C4 as stated has no frame line emitted when every set is empty. The default of each
  \<^verbatim>\<open>maxd\<close> is 0 and 1 is added to the maximum, so frame 0 is emitted.
\<close>

theorem fm2_lines_all_empty:
  "length (fm2_lines {} {} {} {} {} {} {} {} {} None None) \<noteq> 0 \<and>
   text_lines (fm2_smb {} {} {} {} {} False False None None) = [''|0|........|........||'']"
  by (simp add: text_lines_fm2_smb fm2_lines_def maxd_def py_range_def fm2_line_eq)

text \<open>
  C5. For all (finite) input sets, encoding with padding shifts every input frame index
  forward by 196: the line of frame \<open>i\<close> shows a button pressed exactly when \<open>i - 196\<close> is
  in the button's set. The reset flag is set on the line of frame 0 and on no other, and the
  start letter \<open>T\<close> stands on the line of frame 33 and on no other, 163 frames before the
  first shifted input frame (\<open>33 + 163 = 196\<close>). The lines are those of the frames from
  \<open>minFrame\<close> (0 when omitted) up to \<open>maxFrame\<close>; when \<open>maxFrame\<close> is omitted it is at least 34
  and beyond every shifted input frame, so that with both bounds omitted the reset, the start
  press and every shifted press are emitted, whatever the input sets hold.
\<close>

theorem fm2_smb_padding:
  assumes "finite (left \<union> right \<union> down \<union> b \<union> a)"
  shows
  "(let ls = text_lines (fm2_smb left right down b a header True minFrame maxFrame);
        h = (if header then 9 else 0);
        lo = (case minFrame of None \<Rightarrow> 0 | Some m \<Rightarrow> m);
        hi = (case maxFrame of
                None \<Rightarrow> Max (insert 33 ((\<lambda>x. x + 196) ` (left \<union> right \<union> down \<union> b \<union> a))) + 1
              | Some m \<Rightarrow> m)
    in length ls = h + nat (hi - lo) \<and>
       take h ls = (if header then fm2_smb_header else []) \<and>
       (\<forall>k<nat (hi - lo). ls ! (h + k) =
          (if lo + int k = 0 then ''|1|'' else ''|0|'') @
          [if lo + int k - 196 \<in> right then CHR ''R'' else CHR ''.'',
           if lo + int k - 196 \<in> left then CHR ''L'' else CHR ''.'',
           if lo + int k - 196 \<in> down then CHR ''D'' else CHR ''.'',
           CHR ''.'',
           if lo + int k = 33 then CHR ''T'' else CHR ''.'',
           CHR ''.'',
           if lo + int k - 196 \<in> b then CHR ''B'' else CHR ''.'',
           if lo + int k - 196 \<in> a then CHR ''A'' else CHR ''.''] @
          ''|........||'') \<and>
       (maxFrame = None \<longrightarrow>
          34 \<le> hi \<and> (\<forall>x\<in>left \<union> right \<union> down \<union> b \<union> a. x + 196 < hi)))"
proof -
  let ?sh = "\<lambda>x::int. x + 196"
  let ?U = "left \<union> right \<union> down \<union> b \<union> a"
  define M where "M = Max (insert 33 (?sh ` ?U))"
  define lo where "lo = (case minFrame of None \<Rightarrow> 0 | Some m \<Rightarrow> m)"
  define hi where "hi = (case maxFrame of None \<Rightarrow> M + 1 | Some m \<Rightarrow> m)"
  have finU: "finite (insert 33 (?sh ` ?U))" using assms by simp
  have fin': "finite (?sh ` left \<union> ?sh ` right \<union> ?sh ` down \<union> ?sh ` b \<union> ?sh ` a)"
    using assms by simp
  have U': "?sh ` left \<union> ?sh ` right \<union> ?sh ` down \<union> ?sh ` b \<union> ?sh ` a = ?sh ` ?U"
    by (simp add: image_Un)
  have M33: "33 \<le> M" unfolding M_def using finU by (intro Max_ge) simp_all
  have Mge: "x + 196 \<le> M" if "x \<in> ?U" for x
    unfolding M_def using finU that by (intro Max_ge) simp_all
  have "fm2_lines {} (?sh ` down) (?sh ` left) (?sh ` right) (?sh ` a) (?sh ` b) {33} {} {0}
          minFrame maxFrame =
        fm2_lines {} (?sh ` down) (?sh ` left) (?sh ` right) (?sh ` a) (?sh ` b) {33} {} {0}
          (Some lo) (Some hi)"
    unfolding lo_def hi_def M_def U' [symmetric]
    by (rule fm2_lines_padded_bounds [OF fin'])
  then have tl: "text_lines (fm2_smb left right down b a header True minFrame maxFrame) =
     (if header then fm2_smb_header else []) @
     fm2_lines {} (?sh ` down) (?sh ` left) (?sh ` right) (?sh ` a) (?sh ` b) {33} {} {0}
       (Some lo) (Some hi)"
    by (simp add: text_lines_fm2_smb)
  let ?ls = "text_lines (fm2_smb left right down b a header True minFrame maxFrame)"
  let ?h = "if header then 9 else 0 :: nat"
  have c1: "length ?ls = ?h + nat (hi - lo)"
    unfolding tl by (simp add: length_header length_fm2_lines)
  have c2: "take ?h ?ls = (if header then fm2_smb_header else [])"
    unfolding tl by (simp add: length_header)
  have c3: "?ls ! (?h + k) =
          (if lo + int k = 0 then ''|1|'' else ''|0|'') @
          [if lo + int k - 196 \<in> right then CHR ''R'' else CHR ''.'',
           if lo + int k - 196 \<in> left then CHR ''L'' else CHR ''.'',
           if lo + int k - 196 \<in> down then CHR ''D'' else CHR ''.'',
           CHR ''.'',
           if lo + int k = 33 then CHR ''T'' else CHR ''.'',
           CHR ''.'',
           if lo + int k - 196 \<in> b then CHR ''B'' else CHR ''.'',
           if lo + int k - 196 \<in> a then CHR ''A'' else CHR ''.''] @
          ''|........||''" if "k < nat (hi - lo)" for k
    unfolding tl using that
    by (simp add: length_header nth_append nth_fm2_lines fm2_line_eq shift_mem)
  have c4: "34 \<le> hi \<and> (\<forall>x\<in>?U. x + 196 < hi)" if "maxFrame = None"
    using that M33 Mge by (auto simp add: hi_def intro: le_less_trans)
  show ?thesis
    unfolding Let_def lo_def [symmetric] M_def [symmetric] hi_def [symmetric]
    using c1 c2 c3 c4 by blast
qed

text \<open>An instance with both bounds omitted: 199 frame lines, the presses on frames 196 to 198.\<close>

theorem fm2_smb_padding_witness:
  "(let ls = text_lines (fm2_smb {0} {1, 2} {} {2} {0} False True None None)
    in length ls = 199 \<and>
       ls ! 0 = ''|1|........|........||'' \<and>
       ls ! 33 = ''|0|....T...|........||'' \<and>
       ls ! 34 = ''|0|........|........||'' \<and>
       ls ! 196 = ''|0|.L.....A|........||'' \<and>
       ls ! 197 = ''|0|R.......|........||'' \<and>
       ls ! 198 = ''|0|R.....B.|........||'')"
proof -
  let ?ls = "text_lines (fm2_smb {0} {1, 2} {} {2} {0} False True None None)"
  note th = fm2_smb_padding [of "{0}" "{1, 2}" "{}" "{2}" "{0}" False None None,
      unfolded Let_def, simplified]
  from th have len: "length ?ls = 199" by simp
  from th have nth: "\<And>k. k < 199 \<Longrightarrow> ?ls ! k =
          (if k = 0 then ''|1|'' else ''|0|'') @
          [if int k - 196 \<in> {1, 2} then CHR ''R'' else CHR ''.'',
           if int k - 196 \<in> {0} then CHR ''L'' else CHR ''.'',
           CHR ''.'', CHR ''.'',
           if k = 33 then CHR ''T'' else CHR ''.'',
           CHR ''.'',
           if int k - 196 \<in> {2} then CHR ''B'' else CHR ''.'',
           if int k - 196 \<in> {0} then CHR ''A'' else CHR ''.''] @
          ''|........||''"
    by simp
  from nth [of 0] nth [of 33] nth [of 34] nth [of 196] nth [of 197] nth [of 198] len
  show ?thesis by (simp add: Let_def)
qed

text \<open>
  C10. With padding, every input set empty and no explicit bounds, \<^verbatim>\<open>fm2_smb\<close> emits
  exactly 34 frame lines, frames 0 to 33 (after the header, when there is one): the reset at
  frame 0 and the start press at frame 33 take part in the computation of \<^verbatim>\<open>maxFrame\<close>.
\<close>

theorem fm2_smb_empty_padded:
  "text_lines (fm2_smb {} {} {} {} {} header True None None) =
     (if header then fm2_smb_header else []) @
     ''|1|........|........||'' # replicate 32 ''|0|........|........||'' @
     [''|0|....T...|........||'']
   \<and> length (text_lines (fm2_smb {} {} {} {} {} False True None None)) = 34"
proof -
  have "fm2_lines {} {} {} {} {} {} {33} {} {0} None None =
        fm2_lines {} {} {} {} {} {} {33} {} {0} (Some 0) (Some 34)"
    using fm2_lines_padded_bounds [of "{}" "{}" "{}" "{}" "{}" None None] by simp
  also have "\<dots> = ''|1|........|........||'' # replicate 32 ''|0|........|........||'' @
     [''|0|....T...|........||'']"
    by (rule nth_equalityI)
      (auto simp add: length_fm2_lines nth_fm2_lines fm2_line_eq nth_Cons' nth_append)
  finally show ?thesis
    by (simp add: text_lines_fm2_smb)
qed

section \<open>Properties of the representations\<close>

subsection \<open>Loops and lookups\<close>

lemma bind_Inr [simp]: "bind (Inr v) f = f v"
  by (simp add: bind_def)

lemma bind_Inl [simp]: "bind (Inl e) f = Inl e"
  by (simp add: bind_def)

lemma for_each_append:
  "for_each (xs @ ys) body s = bind (for_each xs body s) (for_each ys body)"
proof (induction xs arbitrary: s)
  case Nil show ?case by simp
next
  case (Cons x xs)
  show ?case by (cases "body x s") (simp_all add: Cons.IH)
qed

lemma for_each_upt_Suc:
  "for_each [0..<Suc n] body s = bind (for_each [0..<n] body s) (body n)"
  by (simp add: for_each_append bind_def split: sum.splits)

lemma str_in_single: "str_in [c] s = (c \<in> set s)"
  by (induction s) auto

lemma move_body_typed:
  assumes "cfg (''move'' @ str_nat i) = Some (PyStr m)"
    and "cfg (''move_duration'' @ str_nat i) = Some (PyInt d)"
  shows "move_body cfg i (left, right, running, start) =
     Inr (if CHR ''L'' \<in> set m then left \<union> {start..<start + d} else left,
          if CHR ''R'' \<in> set m then right \<union> {start..<start + d} else right,
          if CHR ''B'' \<in> set m then running \<union> {start..<start + d} else running,
          start + d)"
  using assms
  by (simp add: move_body_def getitem_def contains_def update_range_def add_def int_of_def
      str_in_single set_py_range)

lemma jump_body_typed:
  assumes "cfg (''jump_frame'' @ str_nat i) = Some (PyInt f)"
    and "cfg (''jump_duration'' @ str_nat i) = Some (PyInt d)"
  shows "jump_body cfg i jumping = Inr (jumping \<union> {f..<f + d})"
  using assms
  by (simp add: jump_body_def getitem_def update_range_def add_def int_of_def set_py_range)

lemma cursor_0 [simp]: "cursor md 0 = 0"
  by (simp add: cursor_def)

lemma cursor_Suc: "cursor md (Suc i) = cursor md i + md i"
  by (simp add: cursor_def)

lemma move_frames_0 [simp]: "move_frames mv md c 0 = {}"
  by (simp add: move_frames_def)

lemma move_frames_Suc:
  "move_frames mv md c (Suc n) =
     (if c \<in> set (mv n) then move_frames mv md c n \<union> {cursor md n..<cursor md n + md n}
      else move_frames mv md c n)"
  by (auto simp add: move_frames_def less_Suc_eq)

lemma move_loop:
  assumes "\<forall>i<n. cfg (''move'' @ str_nat i) = Some (PyStr (mv i)) \<and>
                 cfg (''move_duration'' @ str_nat i) = Some (PyInt (md i))"
  shows "for_each [0..<n] (move_body cfg) ({}, {}, {}, 0) =
     Inr (move_frames mv md CHR ''L'' n, move_frames mv md CHR ''R'' n,
          move_frames mv md CHR ''B'' n, cursor md n)"
  using assms
proof (induction n)
  case 0 show ?case by simp
next
  case (Suc n)
  then have ih: "for_each [0..<n] (move_body cfg) ({}, {}, {}, 0) =
     Inr (move_frames mv md CHR ''L'' n, move_frames mv md CHR ''R'' n,
          move_frames mv md CHR ''B'' n, cursor md n)"
    by simp
  from Suc.prems have n: "cfg (''move'' @ str_nat n) = Some (PyStr (mv n))"
    "cfg (''move_duration'' @ str_nat n) = Some (PyInt (md n))"
    by simp_all
  show ?case
    unfolding for_each_upt_Suc ih bind_Inr move_body_typed [OF n]
    by (simp add: move_frames_Suc cursor_Suc)
qed

lemma jump_loop:
  assumes "\<forall>i<n. cfg (''jump_frame'' @ str_nat i) = Some (PyInt (jf i)) \<and>
                 cfg (''jump_duration'' @ str_nat i) = Some (PyInt (jd i))"
  shows "for_each [0..<n] (jump_body cfg) {} = Inr (\<Union>i<n. {jf i..<jf i + jd i})"
  using assms
proof (induction n)
  case 0 show ?case by simp
next
  case (Suc n)
  then have ih: "for_each [0..<n] (jump_body cfg) {} = Inr (\<Union>i<n. {jf i..<jf i + jd i})"
    by simp
  from Suc.prems have n: "cfg (''jump_frame'' @ str_nat n) = Some (PyInt (jf n))"
    "cfg (''jump_duration'' @ str_nat n) = Some (PyInt (jd n))"
    by simp_all
  show ?case
    unfolding for_each_upt_Suc ih bind_Inr jump_body_typed [OF n]
    by (auto simp add: less_Suc_eq)
qed

lemma duration_interpret:
  assumes "duration_cfg cfg mv md jf jd"
  shows "DurationRepresentation_interpret cfg =
     Inr (move_frames mv md CHR ''L'' 1000, move_frames mv md CHR ''R'' 1000, {},
          move_frames mv md CHR ''B'' 1000, \<Union>i<1000. {jf i..<jf i + jd i})"
proof -
  have m: "for_each [0..<1000] (move_body cfg) ({}, {}, {}, 0) =
     Inr (move_frames mv md CHR ''L'' 1000, move_frames mv md CHR ''R'' 1000,
          move_frames mv md CHR ''B'' 1000, cursor md 1000)"
    using assms by (intro move_loop) (simp add: duration_cfg_def)
  have j: "for_each [0..<1000] (jump_body cfg) {} = Inr (\<Union>i<1000. {jf i..<jf i + jd i})"
    using assms by (intro jump_loop) (simp add: duration_cfg_def)
  show ?thesis
    unfolding DurationRepresentation_interpret_def Let_def m j by simp
qed

subsection \<open>The ranges of the move entries\<close>

lemma duration_down_empty:
  "DurationRepresentation_interpret cfg = Inr (l, r, d, b, j) \<Longrightarrow> d = {}"
  by (auto simp add: DurationRepresentation_interpret_def bind_def Let_def
      split: sum.splits prod.splits)

lemma cursor_mono:
  assumes "\<forall>i<n. 0 \<le> md i" and "i \<le> j" and "j \<le> n"
  shows "cursor md i \<le> cursor md j"
  using assms(2,3)
proof (induction j)
  case 0 then show ?case by simp
next
  case (Suc j)
  show ?case
  proof (cases "i = Suc j")
    case True then show ?thesis by simp
  next
    case False
    with Suc.prems have "i \<le> j" "j \<le> n" "j < n" by simp_all
    with Suc.IH assms(1) have "cursor md i \<le> cursor md j" "0 \<le> md j" by simp_all
    then show ?thesis by (simp add: cursor_Suc)
  qed
qed

lemma range_below:
  assumes "\<forall>i<n. 0 \<le> md i" and "i < n"
  shows "{cursor md i..<cursor md i + md i} \<subseteq> {0..<cursor md n}"
proof -
  have "cursor md 0 \<le> cursor md i" using assms by (intro cursor_mono [of n]) simp_all
  moreover have "cursor md (Suc i) \<le> cursor md n"
    using assms by (intro cursor_mono [of n]) simp_all
  ultimately show ?thesis by (auto simp add: cursor_Suc)
qed

lemma move_frames_subset:
  assumes "\<forall>i<n. 0 \<le> md i"
  shows "move_frames mv md c n \<subseteq> {0..<cursor md n}"
  unfolding move_frames_def using range_below [OF assms] by blast

lemma ranges_disjoint:
  assumes "\<forall>i<n. 0 \<le> md i" and "i < n" and "j < n" and "i \<noteq> j"
  shows "{cursor md i..<cursor md i + md i} \<inter> {cursor md j..<cursor md j + md j} = {}"
proof -
  have *: "{cursor md p..<cursor md p + md p} \<inter> {cursor md q..<cursor md q + md q} = {}"
    if "p < q" "q < n" for p q
  proof -
    have "cursor md (Suc p) \<le> cursor md q"
      using that assms(1) by (intro cursor_mono [of n]) simp_all
    then show ?thesis by (auto simp add: cursor_Suc)
  qed
  from assms(4) consider "i < j" | "j < i" by linarith
  then show ?thesis
  proof cases
    case 1 then show ?thesis using assms(3) by (rule *)
  next
    case 2 then have "{cursor md j..<cursor md j + md j} \<inter>
        {cursor md i..<cursor md i + md i} = {}" using assms(2) by (rule *)
    then show ?thesis by blast
  qed
qed

lemma ranges_cover:
  assumes "\<forall>i<n. 0 \<le> md i"
  shows "(\<Union>i<n. {cursor md i..<cursor md i + md i}) = {0..<cursor md n}"
  using assms
proof (induction n)
  case 0 show ?case by simp
next
  case (Suc n)
  then have ih: "(\<Union>i<n. {cursor md i..<cursor md i + md i}) = {0..<cursor md n}"
    and n: "0 \<le> md n" by simp_all
  have "0 \<le> cursor md n"
    using Suc.prems cursor_mono [of "Suc n" md 0 n] by simp
  with n have "{0..<cursor md n} \<union> {cursor md n..<cursor md n + md n} = {0..<cursor md n + md n}"
    by auto
  then show ?case
    by (simp add: lessThan_Suc ih cursor_Suc Un_commute)
qed

lemma move_frames_member:
  assumes "\<forall>i<n. 0 \<le> md i" and "i < n" and "f \<in> {cursor md i..<cursor md i + md i}"
  shows "f \<in> move_frames mv md c n \<longleftrightarrow> c \<in> set (mv i)"
proof
  assume "f \<in> move_frames mv md c n"
  then obtain j where j: "j < n" "c \<in> set (mv j)" "f \<in> {cursor md j..<cursor md j + md j}"
    by (auto simp add: move_frames_def)
  have "j = i"
  proof (rule ccontr)
    assume "j \<noteq> i"
    from ranges_disjoint [OF assms(1) j(1) assms(2) this] j(3) assms(3) show False by blast
  qed
  with j(2) show "c \<in> set (mv i)" by simp
next
  assume "c \<in> set (mv i)"
  with assms(2,3) show "f \<in> move_frames mv md c n"
    unfolding move_frames_def by blast
qed

subsection \<open>Parameter names and the sample configurations\<close>

lemma digit_char_cases:
  assumes "d < 10"
  shows "digit_char d \<in> set ''0123456789''"
proof -
  have "(''0123456789'' ! d) \<in> set ''0123456789''"
    using assms by (intro nth_mem) simp
  then show ?thesis by (simp only: digit_char_def)
qed

lemma digit_char_eq_0: "d < 10 \<Longrightarrow> digit_char d = CHR ''0'' \<longleftrightarrow> d = 0"
proof -
  assume "d < 10"
  then consider "d = 0" | "d = 1" | "d = 2" | "d = 3" | "d = 4" | "d = 5" | "d = 6" | "d = 7"
    | "d = 8" | "d = 9" by atomize_elim arith
  then show ?thesis by cases (simp_all add: digit_char_def)
qed

lemma digit_char_eq_1: "d < 10 \<Longrightarrow> digit_char d = CHR ''1'' \<longleftrightarrow> d = 1"
proof -
  assume "d < 10"
  then consider "d = 0" | "d = 1" | "d = 2" | "d = 3" | "d = 4" | "d = 5" | "d = 6" | "d = 7"
    | "d = 8" | "d = 9" by atomize_elim arith
  then show ?thesis by cases (simp_all add: digit_char_def)
qed

lemma str_nat_digits: "set (str_nat n) \<subseteq> set ''0123456789''"
proof (induction n rule: str_nat.induct)
  case (1 n)
  show ?case
  proof (cases "n < 10")
    case True
    then show ?thesis using digit_char_cases [of n] by (subst str_nat.simps) simp
  next
    case False
    have "n mod 10 < 10" by simp
    from digit_char_cases [OF this] "1" [OF False] False show ?thesis
      by (subst str_nat.simps) simp
  qed
qed

lemma str_nat_not_Nil: "str_nat n \<noteq> []"
  by (subst str_nat.simps) simp

lemma str_nat_eq_0: "str_nat n = ''0'' \<longleftrightarrow> n = 0"
proof (cases "n < 10")
  case True
  then show ?thesis using digit_char_eq_0 [of n] by (subst str_nat.simps) simp
next
  case False
  then have "str_nat n = str_nat (n div 10) @ [digit_char (n mod 10)]"
    by (subst str_nat.simps) simp
  with str_nat_not_Nil [of "n div 10"] False show ?thesis
    by (cases "str_nat (n div 10)") auto
qed

lemma str_nat_eq_1: "str_nat n = ''1'' \<longleftrightarrow> n = 1"
proof (cases "n < 10")
  case True
  then show ?thesis using digit_char_eq_1 [of n] by (subst str_nat.simps) simp
next
  case False
  then have "str_nat n = str_nat (n div 10) @ [digit_char (n mod 10)]"
    by (subst str_nat.simps) simp
  with str_nat_not_Nil [of "n div 10"] False show ?thesis
    by (cases "str_nat (n div 10)") auto
qed

lemma str_nat_no_underscore: "take 9 (str_nat n) \<noteq> ''_duration''"
proof
  assume "take 9 (str_nat n) = ''_duration''"
  then have "CHR ''_'' \<in> set (take 9 (str_nat n))" by simp
  then have "CHR ''_'' \<in> set (str_nat n)" by (rule in_set_takeD)
  with str_nat_digits [of n] show False by auto
qed

lemma str_nat_not_duration: "str_nat n \<noteq> ''_duration0''" "str_nat n \<noteq> ''_duration1''"
  using str_nat_digits [of n] by auto

lemma two_moves_cfg_move:
  "two_moves_cfg (''move'' @ str_nat i) =
     Some (PyStr (if i = 0 then ''R'' else if i = 1 then ''L'' else ''N''))"
  by (simp add: two_moves_cfg_def str_nat_eq_0 str_nat_eq_1 str_nat_no_underscore
      str_nat_not_duration)

lemma two_moves_cfg_move_duration:
  "two_moves_cfg (''move_duration'' @ str_nat i) =
     Some (PyInt (if i = 0 then 5 else if i = 1 then 3 else 60))"
  by (simp add: two_moves_cfg_def str_nat_eq_0 str_nat_eq_1)

lemma two_moves_cfg_jump:
  "two_moves_cfg (''jump_frame'' @ str_nat i) = Some (PyInt 7)"
  "two_moves_cfg (''jump_duration'' @ str_nat i) = Some (PyInt 2)"
  by (simp_all add: two_moves_cfg_def)

lemma two_moves_cfg_ok:
  "duration_cfg two_moves_cfg (\<lambda>i. if i = 0 then ''R'' else if i = 1 then ''L'' else ''N'')
     (\<lambda>i. if i = 0 then 5 else if i = 1 then 3 else 60) (\<lambda>i. 7) (\<lambda>i. 2)"
  unfolding duration_cfg_def
  by (intro allI impI, simp only: two_moves_cfg_move two_moves_cfg_move_duration
      two_moves_cfg_jump) (simp add: move_symbols_def)

lemma running_cfg_ok:
  "duration_cfg running_cfg (\<lambda>i. ''RB'') (\<lambda>i. 2) (\<lambda>i. 24000) (\<lambda>i. 32)"
  by (simp add: duration_cfg_def running_cfg_def str_nat_no_underscore move_symbols_def)

lemma two_frames_cfg_ok:
  "alphabet_cfg two_frames_cfg (\<lambda>i. if i = 0 then 3 else if i = 1 then 9 else 0)"
  by (simp add: alphabet_cfg_def two_frames_cfg_def str_nat_eq_0 str_nat_eq_1)

subsection \<open>The bit masks of the alphabet\<close>

lemma and_bits:
  fixes v :: int
  shows "v AND 1 \<noteq> 0 \<longleftrightarrow> bit v 0" "v AND 2 \<noteq> 0 \<longleftrightarrow> bit v 1"
    "v AND 4 \<noteq> 0 \<longleftrightarrow> bit v 2" "v AND 8 \<noteq> 0 \<longleftrightarrow> bit v 3"
  using and_exp_eq_0_iff_not_bit [of v 0] and_exp_eq_0_iff_not_bit [of v 1]
    and_exp_eq_0_iff_not_bit [of v 2] and_exp_eq_0_iff_not_bit [of v 3]
  by simp_all

lemma alphabet_body_typed:
  assumes "cfg (str_nat i) = Some (PyInt v)"
  shows "alphabet_body cfg i (left, right, running, jumping) =
     Inr (if bit v 0 then insert (int i) left else left,
          if bit v 1 then insert (int i) right else right,
          if bit v 2 then insert (int i) running else running,
          if bit v 3 then insert (int i) jumping else jumping)"
  using assms
  by (simp add: alphabet_body_def getitem_def bitand_def int_of_def and_bits)

lemma alphabet_loop:
  assumes "\<forall>i<n. cfg (str_nat i) = Some (PyInt (bits i))"
  shows "for_each [0..<n] (alphabet_body cfg) ({}, {}, {}, {}) =
     Inr (int ` {i. i < n \<and> bit (bits i) 0}, int ` {i. i < n \<and> bit (bits i) 1},
          int ` {i. i < n \<and> bit (bits i) 2}, int ` {i. i < n \<and> bit (bits i) 3})"
  using assms
proof (induction n)
  case 0 show ?case by simp
next
  case (Suc n)
  then have ih: "for_each [0..<n] (alphabet_body cfg) ({}, {}, {}, {}) =
     Inr (int ` {i. i < n \<and> bit (bits i) 0}, int ` {i. i < n \<and> bit (bits i) 1},
          int ` {i. i < n \<and> bit (bits i) 2}, int ` {i. i < n \<and> bit (bits i) 3})"
    by simp
  from Suc.prems have n: "cfg (str_nat n) = Some (PyInt (bits n))" by simp
  have step: "{i. i < Suc n \<and> bit (bits i) k} =
      (if bit (bits n) k then insert n {i. i < n \<and> bit (bits i) k}
       else {i. i < n \<and> bit (bits i) k})" for k
    by (auto simp add: less_Suc_eq)
  show ?case
    unfolding for_each_upt_Suc ih bind_Inr alphabet_body_typed [of cfg n "bits n", OF n] step
    by simp
qed

lemma alphabet_interpret:
  assumes "alphabet_cfg cfg bits"
  shows "AlphabetRepresentation_interpret cfg =
     Inr (int ` {i. i < 24000 \<and> bit (bits i) 0}, int ` {i. i < 24000 \<and> bit (bits i) 1}, {},
          int ` {i. i < 24000 \<and> bit (bits i) 2}, int ` {i. i < 24000 \<and> bit (bits i) 3})"
proof -
  have "for_each [0..<24000] (alphabet_body cfg) ({}, {}, {}, {}) =
     Inr (int ` {i. i < 24000 \<and> bit (bits i) 0}, int ` {i. i < 24000 \<and> bit (bits i) 1},
          int ` {i. i < 24000 \<and> bit (bits i) 2}, int ` {i. i < 24000 \<and> bit (bits i) 3})"
    using assms by (intro alphabet_loop) (simp add: alphabet_cfg_def)
  then show ?thesis
    by (simp add: AlphabetRepresentation_interpret_def)
qed

subsection \<open>Claims about the representations\<close>

text \<open>
  C3. For a duration-run configuration whose first two move entries are \<open>("R", 5)\<close> and
  \<open>("L", 3)\<close> and whose other 998 move entries have the symbol \<open>"N"\<close>,
  \<^verbatim>\<open>DurationRepresentation.interpret\<close> returns \<open>right = {0, 1, 2, 3, 4}\<close>,
  \<open>left = {5, 6, 7}\<close> and \<open>running = {}\<close>: each move entry gives the half-open range
  \<open>[cursor, cursor + duration)\<close> to the sets named by the letters of its symbol, and the
  cursor advances by the duration of each entry.
\<close>

theorem duration_two_moves:
  assumes "duration_cfg cfg mv md jf jd"
    and "mv 0 = ''R''" and "md 0 = 5" and "mv 1 = ''L''" and "md 1 = 3"
    and "\<forall>i. 2 \<le> i \<and> i < 1000 \<longrightarrow> mv i = ''N''"
  shows "DurationRepresentation_interpret cfg =
           Inr (move_frames mv md CHR ''L'' 1000, move_frames mv md CHR ''R'' 1000, {},
                move_frames mv md CHR ''B'' 1000, \<Union>i<1000. {jf i..<jf i + jd i}) \<and>
         move_frames mv md CHR ''R'' 1000 = {0, 1, 2, 3, 4} \<and>
         move_frames mv md CHR ''L'' 1000 = {5, 6, 7} \<and>
         move_frames mv md CHR ''B'' 1000 = {}"
proof -
  have mv: "mv i = (if i = 0 then ''R'' else if i = 1 then ''L'' else ''N'')" if "i < 1000" for i
  proof -
    consider "i = 0" | "i = 1" | "2 \<le> i" by atomize_elim arith
    then show ?thesis using assms(2,4,6) that by cases simp_all
  qed
  have R: "{i. i < 1000 \<and> CHR ''R'' \<in> set (mv i)} = {0}"
    using mv by (auto split: if_splits)
  have L: "{i. i < 1000 \<and> CHR ''L'' \<in> set (mv i)} = {1}"
    using mv by (auto split: if_splits)
  have B: "{i. i < 1000 \<and> CHR ''B'' \<in> set (mv i)} = {}"
    using mv by (auto split: if_splits)
  have c1: "cursor md 1 = 5"
    using cursor_Suc [of md 0] assms(3) by simp
  have "move_frames mv md CHR ''R'' 1000 = {0..<5}"
    unfolding move_frames_def R using assms(3) by simp
  moreover have "{0..<5} = {0, 1, 2, 3, 4 :: int}" by auto
  moreover have "move_frames mv md CHR ''L'' 1000 = {5..<8}"
    unfolding move_frames_def L using assms(5) c1 by simp
  moreover have "{5..<8} = {5, 6, 7 :: int}" by auto
  moreover have "move_frames mv md CHR ''B'' 1000 = {}"
    unfolding move_frames_def B by simp
  ultimately show ?thesis
    using duration_interpret [OF assms(1)] by simp
qed

theorem duration_two_moves_witness:
  "DurationRepresentation_interpret two_moves_cfg = Inr ({5, 6, 7}, {0, 1, 2, 3, 4}, {}, {}, {7, 8})"
proof -
  have "(0::nat) \<in> {..<1000}" by simp
  then have "{..<1000::nat} \<noteq> {}" by blast
  then have "(\<Union>i<(1000::nat). {7..<7 + 2}) = {7, 8 :: int}" by auto
  then show ?thesis
    using duration_two_moves [OF two_moves_cfg_ok] by simp
qed

text \<open>
  C7. For a bitmask-alphabet configuration and every frame \<open>k\<close> below the horizon of 24000,
  \<^verbatim>\<open>AlphabetRepresentation.interpret\<close> puts \<open>k\<close> in \<open>left\<close> exactly when bit 0 of the value of
  frame \<open>k\<close> is set, in \<open>right\<close> exactly when bit 1 is set, in \<open>running\<close> exactly when bit 2
  is set and in \<open>jumping\<close> exactly when bit 3 is set; the value 3 puts \<open>k\<close> in both \<open>left\<close>
  and \<open>right\<close>. No frame outside the horizon is in any set, and \<open>down\<close> is empty.
\<close>

theorem alphabet_bits:
  assumes "alphabet_cfg cfg bits"
  shows "\<exists>left right down running jumping.
     AlphabetRepresentation_interpret cfg = Inr (left, right, down, running, jumping) \<and>
     (\<forall>k<24000.
        (int k \<in> left \<longleftrightarrow> bit (bits k) 0) \<and> (int k \<in> right \<longleftrightarrow> bit (bits k) 1) \<and>
        (int k \<in> running \<longleftrightarrow> bit (bits k) 2) \<and> (int k \<in> jumping \<longleftrightarrow> bit (bits k) 3) \<and>
        (bits k = 3 \<longrightarrow> int k \<in> left \<and> int k \<in> right)) \<and>
     left \<union> right \<union> running \<union> jumping \<subseteq> {0..<24000} \<and> down = {}"
proof -
  have three: "bit (3::int) 0" "bit (3::int) 1" by (simp_all add: bit_numeral_simps)
  show ?thesis
    unfolding alphabet_interpret [OF assms]
    using three by (auto simp add: image_iff)
qed

theorem alphabet_bits_witness:
  "\<exists>left right down running jumping.
     AlphabetRepresentation_interpret two_frames_cfg = Inr (left, right, down, running, jumping) \<and>
     0 \<in> left \<and> 0 \<in> right \<and> 0 \<notin> running \<and> 0 \<notin> jumping \<and>
     1 \<in> left \<and> 1 \<notin> right \<and> 1 \<notin> running \<and> 1 \<in> jumping \<and>
     2 \<notin> left \<and> 2 \<notin> right \<and> 2 \<notin> running \<and> 2 \<notin> jumping"
proof -
  let ?bits = "\<lambda>i::nat. if i = 0 then 3 else if i = 1 then 9 else (0::int)"
  from alphabet_bits [OF two_frames_cfg_ok]
  obtain left right down running jumping where
    r: "AlphabetRepresentation_interpret two_frames_cfg = Inr (left, right, down, running, jumping)"
    and m: "\<forall>k<24000.
        (int k \<in> left \<longleftrightarrow> bit (?bits k) 0) \<and> (int k \<in> right \<longleftrightarrow> bit (?bits k) 1) \<and>
        (int k \<in> running \<longleftrightarrow> bit (?bits k) 2) \<and> (int k \<in> jumping \<longleftrightarrow> bit (?bits k) 3) \<and>
        (?bits k = 3 \<longrightarrow> int k \<in> left \<and> int k \<in> right)"
    by (elim exE conjE) (rule that)
  have b3: "bit (3::int) 0" "bit (3::int) 1" "\<not> bit (3::int) 2" "\<not> bit (3::int) 3"
    by (simp_all add: bit_numeral_simps)
  have b9: "bit (9::int) 0" "\<not> bit (9::int) 1" "\<not> bit (9::int) 2" "bit (9::int) 3"
    by (simp_all add: bit_numeral_simps)
  from m [rule_format, of 0] m [rule_format, of 1] m [rule_format, of 2] b3 b9
  have "0 \<in> left \<and> 0 \<in> right \<and> 0 \<notin> running \<and> 0 \<notin> jumping \<and>
     1 \<in> left \<and> 1 \<notin> right \<and> 1 \<notin> running \<and> 1 \<in> jumping \<and>
     2 \<notin> left \<and> 2 \<notin> right \<and> 2 \<notin> running \<and> 2 \<notin> jumping"
    by simp
  with r show ?thesis by blast
qed

text \<open>
  C8. The \<open>down\<close> set that \<^verbatim>\<open>DurationRepresentation.interpret\<close> returns is empty: whenever
  the method returns, and it does return for every configuration with values in the declared
  domains.
\<close>

theorem duration_down_never:
  "(\<forall>l r d b j. DurationRepresentation_interpret cfg = Inr (l, r, d, b, j) \<longrightarrow> d = {}) \<and>
   (duration_cfg cfg mv md jf jd \<longrightarrow>
      (\<exists>l r b j. DurationRepresentation_interpret cfg = Inr (l, r, {}, b, j)))"
  using duration_down_empty duration_interpret by blast

theorem duration_down_never_witness:
  "\<exists>l r b j. DurationRepresentation_interpret running_cfg = Inr (l, r, {}, b, j)"
  using duration_down_never [of running_cfg "\<lambda>i. ''RB''" "\<lambda>i. 2" "\<lambda>i. 24000" "\<lambda>i. 32"]
    running_cfg_ok by blast

text \<open>
  C9. For a duration-run configuration, with \<open>S\<close> the sum of the 1000 move durations: the
  sets \<open>left\<close>, \<open>right\<close> and \<open>running\<close> lie within \<open>[0, S)\<close>; the ranges
  \<open>[cursor i, cursor i + duration i)\<close> of the move entries follow one another from 0, are
  not empty, pairwise disjoint and together make up \<open>[0, S)\<close>; and a frame of the range of
  entry \<open>i\<close> is in \<open>left\<close>, \<open>right\<close> or \<open>running\<close> exactly when the symbol of entry \<open>i\<close> has
  the letter \<open>L\<close>, \<open>R\<close> or \<open>B\<close>. The \<open>jumping\<close> set is not bounded by \<open>S\<close>: some
  configuration has a jump frame outside \<open>[0, S)\<close>.
\<close>

theorem duration_ranges_partition:
  assumes "duration_cfg cfg mv md jf jd"
  shows "(\<exists>left right down running jumping.
     DurationRepresentation_interpret cfg = Inr (left, right, down, running, jumping) \<and>
     left \<union> right \<union> running \<subseteq> {0..<\<Sum>i<1000. md i} \<and>
     (\<forall>i<1000. \<forall>f\<in>{cursor md i..<cursor md i + md i}.
        (f \<in> left \<longleftrightarrow> CHR ''L'' \<in> set (mv i)) \<and>
        (f \<in> right \<longleftrightarrow> CHR ''R'' \<in> set (mv i)) \<and>
        (f \<in> running \<longleftrightarrow> CHR ''B'' \<in> set (mv i)))) \<and>
     cursor md 0 = 0 \<and>
     (\<forall>i<1000. cursor md (Suc i) = cursor md i + md i \<and>
        {cursor md i..<cursor md i + md i} \<noteq> {}) \<and>
     (\<forall>i<1000. \<forall>j<1000. i \<noteq> j \<longrightarrow>
        {cursor md i..<cursor md i + md i} \<inter> {cursor md j..<cursor md j + md j} = {}) \<and>
     (\<Union>i<1000. {cursor md i..<cursor md i + md i}) = {0..<\<Sum>i<1000. md i} \<and>
     (\<exists>cfg' mv' md' jf' jd' l r d b j.
        duration_cfg cfg' mv' md' jf' jd' \<and>
        DurationRepresentation_interpret cfg' = Inr (l, r, d, b, j) \<and>
        \<not> j \<subseteq> {0..<\<Sum>i<1000. md' i})"
proof -
  have nn: "\<forall>i<1000. 0 \<le> md i"
    using assms by (auto simp add: duration_cfg_def)
  have S: "(\<Sum>i<1000. md i) = cursor md 1000" by (simp add: cursor_def)
  let ?L = "move_frames mv md CHR ''L'' 1000"
  let ?R = "move_frames mv md CHR ''R'' 1000"
  let ?B = "move_frames mv md CHR ''B'' 1000"
  have sub: "?L \<union> ?R \<union> ?B \<subseteq> {0..<cursor md 1000}"
    using move_frames_subset [OF nn] by simp
  have mem: "\<forall>i<1000. \<forall>f\<in>{cursor md i..<cursor md i + md i}.
        (f \<in> ?L \<longleftrightarrow> CHR ''L'' \<in> set (mv i)) \<and>
        (f \<in> ?R \<longleftrightarrow> CHR ''R'' \<in> set (mv i)) \<and>
        (f \<in> ?B \<longleftrightarrow> CHR ''B'' \<in> set (mv i))"
    using move_frames_member [OF nn] by blast
  have first: "\<exists>left right down running jumping.
     DurationRepresentation_interpret cfg = Inr (left, right, down, running, jumping) \<and>
     left \<union> right \<union> running \<subseteq> {0..<\<Sum>i<1000. md i} \<and>
     (\<forall>i<1000. \<forall>f\<in>{cursor md i..<cursor md i + md i}.
        (f \<in> left \<longleftrightarrow> CHR ''L'' \<in> set (mv i)) \<and>
        (f \<in> right \<longleftrightarrow> CHR ''R'' \<in> set (mv i)) \<and>
        (f \<in> running \<longleftrightarrow> CHR ''B'' \<in> set (mv i)))"
    unfolding S using duration_interpret [OF assms] sub mem by blast
  have pos: "\<forall>i<1000. 0 < md i"
    using assms by (auto simp add: duration_cfg_def)
  have step: "\<forall>i<1000. cursor md (Suc i) = cursor md i + md i \<and>
        {cursor md i..<cursor md i + md i} \<noteq> {}"
    using pos by (simp add: cursor_Suc)
  have disj: "\<forall>i<1000. \<forall>j<1000. i \<noteq> j \<longrightarrow>
        {cursor md i..<cursor md i + md i} \<inter> {cursor md j..<cursor md j + md j} = {}"
    using ranges_disjoint [OF nn] by blast
  have cover: "(\<Union>i<1000. {cursor md i..<cursor md i + md i}) = {0..<\<Sum>i<1000. md i}"
    unfolding S by (rule ranges_cover [OF nn])
  have "(0::nat) \<in> {..<1000}" by simp
  then have "{..<1000::nat} \<noteq> {}" by blast
  then have "(24000::int) \<in> (\<Union>i<(1000::nat). {24000..<24000 + 32})" by auto
  moreover have "(\<Sum>i<(1000::nat). (2::int)) = 2000" by simp
  ultimately have "\<not> (\<Union>i<(1000::nat). {24000..<24000 + 32}) \<subseteq> {0..<\<Sum>i<(1000::nat). (2::int)}"
    by (simp only:) auto
  with duration_interpret [OF running_cfg_ok] running_cfg_ok
  have jump: "\<exists>cfg' mv' md' jf' jd' l r d b j.
        duration_cfg cfg' mv' md' jf' jd' \<and>
        DurationRepresentation_interpret cfg' = Inr (l, r, d, b, j) \<and>
        \<not> j \<subseteq> {0..<\<Sum>i<1000. md' i}"
    by blast
  from first step disj cover jump show ?thesis by simp
qed

theorem duration_ranges_partition_witness:
  "\<exists>left right down running jumping.
     DurationRepresentation_interpret running_cfg = Inr (left, right, down, running, jumping) \<and>
     left \<union> right \<union> running \<subseteq> {0..<2000} \<and> 5 \<in> right \<and> 5 \<in> running \<and> 5 \<notin> left"
proof -
  have c: "cursor (\<lambda>i. 2) 2 = 4" by (simp add: cursor_def)
  have S: "(\<Sum>i<(1000::nat). (2::int)) = 2000" by simp
  note th = duration_ranges_partition [OF running_cfg_ok, THEN conjunct1]
  then obtain left right down running jumping where
    r: "DurationRepresentation_interpret running_cfg = Inr (left, right, down, running, jumping)"
    and s: "left \<union> right \<union> running \<subseteq> {0..<\<Sum>i<(1000::nat). (2::int)}"
    and m: "\<forall>i<1000. \<forall>f\<in>{cursor (\<lambda>i. 2) i..<cursor (\<lambda>i. 2) i + 2}.
        (f \<in> left \<longleftrightarrow> CHR ''L'' \<in> set ''RB'') \<and>
        (f \<in> right \<longleftrightarrow> CHR ''R'' \<in> set ''RB'') \<and>
        (f \<in> running \<longleftrightarrow> CHR ''B'' \<in> set ''RB'')"
    by (elim exE conjE) (rule that)
  have "(2::nat) < 1000" by simp
  moreover have "(5::int) \<in> {cursor (\<lambda>i. 2) 2..<cursor (\<lambda>i. 2) 2 + 2}"
    unfolding c by simp
  ultimately have "(5 \<in> left \<longleftrightarrow> CHR ''L'' \<in> set ''RB'') \<and>
        (5 \<in> right \<longleftrightarrow> CHR ''R'' \<in> set ''RB'') \<and>
        (5 \<in> running \<longleftrightarrow> CHR ''B'' \<in> set ''RB'')"
    using m by blast
  then have "5 \<notin> left \<and> 5 \<in> right \<and> 5 \<in> running" by simp
  moreover from s have "left \<union> right \<union> running \<subseteq> {0..<2000}" unfolding S .
  ultimately show ?thesis using r by blast
qed

section \<open>Properties of the fitness functions and of the harness\<close>

subsection \<open>Rounding to a double\<close>

lemma round_half_even_of_int: "round_half_even (of_int m) = m"
  by (simp add: round_half_even_def)

lemma pow2_pos: "0 < pow2 e"
  by (simp add: pow2_def)

lemma round_double_exact:
  assumes "q \<noteq> 0"
    and "\<bar>q\<bar> / pow2 (max (ilog2 \<bar>q\<bar>) (- 1022) - 52) = of_int m"
    and "\<bar>q\<bar> < 2 ^ 1024"
  shows "round_double q = Finite q"
proof -
  define e where "e = max (ilog2 \<bar>q\<bar>) (- 1022) - 52"
  define v where "v = of_int (round_half_even (\<bar>q\<bar> / pow2 e)) * pow2 e"
  have "\<bar>q\<bar> / pow2 e = of_int m" using assms(2) by (simp only: e_def)
  then have v: "v = \<bar>q\<bar>"
    using pow2_pos [of e] by (simp add: v_def round_half_even_of_int nonzero_divide_eq_eq)
  have "round_double q =
      (if 2 ^ 1024 \<le> v then (if 0 < q then PosInf else NegInf)
       else Finite (if 0 < q then v else - v))"
    unfolding round_double_def Let_def e_def [symmetric] v_def [symmetric]
    using assms(1) by (simp only: if_False)
  also have "\<dots> = Finite q"
    using assms(3) by (simp add: v)
  finally show ?thesis .
qed

lemma ilog2_of_int: "0 < n \<Longrightarrow> ilog2 (of_int n) = bitlen n - 1"
  by (simp add: ilog2_def)

lemma round_double_of_int:
  assumes "\<bar>n\<bar> \<le> 2 ^ 53"
  shows "round_double (of_int n) = Finite (of_int n)"
proof (cases "n = 0")
  case True
  then show ?thesis by (simp add: round_double_def)
next
  case False
  define a where "a = \<bar>n\<bar>"
  define b where "b = bitlen a"
  have a: "0 < a" "a \<le> 2 ^ 53" using False assms by (simp_all add: a_def)
  have abs: "\<bar>real_of_int n\<bar> = of_int a" by (simp add: a_def)
  have b1: "1 \<le> b" unfolding b_def using a(1) by (simp add: bitlen_ge_iff_power)
  have b54: "b \<le> 54" unfolding b_def using a(2) by (simp add: bitlen_le_iff_power)
  have e: "max (ilog2 (of_int a)) (- 1022) - 52 = b - 53"
    using b1 by (simp add: ilog2_of_int [OF a(1)] b_def [symmetric])
  have "\<exists>m. real_of_int a / pow2 (b - 53) = of_int m"
  proof (cases "b = 54")
    case True
    then have "2 ^ 53 \<le> a" using bitlen_ge_iff_power [of 54 a] by (simp add: b_def)
    with a(2) have "a = 2 ^ 53" by simp
    then have "real_of_int a / pow2 (b - 53) = of_int (2 ^ 52)"
      using True by (simp add: pow2_def)
    then show ?thesis ..
  next
    case False
    with b54 have le: "b \<le> 53" by simp
    have "pow2 (b - 53) = 1 / 2 ^ nat (53 - b)"
    proof (cases "b = 53")
      case True then show ?thesis by (simp add: pow2_def)
    next
      case False with le show ?thesis by (simp add: pow2_def)
    qed
    then have "real_of_int a / pow2 (b - 53) = of_int (a * 2 ^ nat (53 - b))" by simp
    then show ?thesis ..
  qed
  then obtain m where m: "real_of_int a / pow2 (b - 53) = of_int m" ..
  have lt: "real_of_int a < 2 ^ 1024"
  proof -
    have "real_of_int a \<le> 2 ^ 53" using a(2) by (metis of_int_le_iff of_int_numeral of_int_power)
    also have "\<dots> < (2::real) ^ 1024" by (simp add: power_strict_increasing)
    finally show ?thesis .
  qed
  show ?thesis
    using False m lt by (intro round_double_exact [where m = m]) (simp_all add: abs e)
qed

lemma float_exact: "\<bar>n\<bar> \<le> 2 ^ 53 \<Longrightarrow> float n = Inr (of_int n)"
  by (simp add: float_def round_double_of_int)

lemma bitlen_eqI:
  assumes "2 ^ k \<le> x" and "x < 2 ^ Suc k"
  shows "bitlen x = int k + 1"
proof (rule antisym)
  show "bitlen x \<le> int k + 1"
    using assms(2) by (simp add: bitlen_le_iff_power nat_add_distrib)
  show "int k + 1 \<le> bitlen x"
    using assms(1) by (simp add: bitlen_ge_iff_power nat_add_distrib)
qed

lemma ilog2_eqI:
  assumes "2 ^ k \<le> q" and "q < 2 ^ Suc k"
  shows "ilog2 q = int k"
proof -
  have "(1::real) \<le> 2 ^ k" by simp
  with assms(1) have q1: "1 \<le> q" by linarith
  have "real_of_int (2 ^ k) \<le> q" using assms(1) by simp
  then have lo: "2 ^ k \<le> \<lfloor>q\<rfloor>" by (simp only: le_floor_iff)
  have "q < real_of_int (2 ^ Suc k)" using assms(2) by simp
  then have hi: "\<lfloor>q\<rfloor> < 2 ^ Suc k" by (simp only: floor_less_iff)
  show ?thesis
    using q1 bitlen_eqI [OF lo hi] by (simp add: ilog2_def)
qed

lemma round_double_eval:
  assumes "2 ^ k \<le> \<bar>q\<bar>" and "\<bar>q\<bar> < 2 ^ Suc k"
    and "round_half_even (\<bar>q\<bar> / pow2 (int k - 52)) = m"
    and "of_int m * pow2 (int k - 52) < 2 ^ 1024"
  shows "round_double q =
    Finite (if 0 < q then of_int m * pow2 (int k - 52) else - (of_int m * pow2 (int k - 52)))"
proof -
  have "(0::real) < 2 ^ k" by simp
  with assms(1) have "0 < \<bar>q\<bar>" by linarith
  then have q0: "q \<noteq> 0" by simp
  have e: "max (ilog2 \<bar>q\<bar>) (- 1022) - 52 = int k - 52"
    by (simp add: ilog2_eqI [OF assms(1,2)])
  show ?thesis
    unfolding round_double_def Let_def e assms(3)
    using q0 assms(4) by simp
qed

lemma round_half_even_down:
  "of_int f \<le> x \<Longrightarrow> x < of_int f + 1 / 2 \<Longrightarrow> round_half_even x = f"
proof -
  assume a: "of_int f \<le> x" "x < of_int f + 1 / 2"
  then have "\<lfloor>x\<rfloor> = f" by (intro floor_unique) simp_all
  with a show ?thesis by (simp add: round_half_even_def)
qed

lemma round_half_even_up:
  "of_int f + 1 / 2 < x \<Longrightarrow> x < of_int f + 1 \<Longrightarrow> round_half_even x = f + 1"
proof -
  assume a: "of_int f + 1 / 2 < x" "x < of_int f + 1"
  then have "\<lfloor>x\<rfloor> = f" by (intro floor_unique) simp_all
  with a show ?thesis by (simp add: round_half_even_def)
qed

lemma round_half_even_tie:
  "x = of_int f + 1 / 2 \<Longrightarrow> round_half_even x = (if even f then f else f + 1)"
proof -
  assume a: "x = of_int f + 1 / 2"
  then have "\<lfloor>x\<rfloor> = f" by (intro floor_unique) simp_all
  with a show ?thesis by (simp add: round_half_even_def)
qed

lemma round_double_above_2_53:
  "round_double 9007199254740993 = Finite 9007199254740992"
proof -
  have "round_half_even (\<bar>9007199254740993\<bar> / pow2 (int 53 - 52)) = 4503599627370496"
    using round_half_even_tie [of "9007199254740993 / 2" 4503599627370496]
    by (simp add: pow2_def)
  from round_double_eval [of 53 9007199254740993, OF _ _ this]
  show ?thesis by (simp add: pow2_def)
qed

lemma round_double_100_3:
  "round_double (100 / 3) = Finite (4691249611844267 / 140737488355328)"
proof -
  have "round_half_even (\<bar>100 / 3\<bar> / pow2 (int 5 - 52)) = 4691249611844266 + 1"
    by (rule round_half_even_up) (simp_all add: pow2_def)
  from round_double_eval [of 5 "100 / 3", OF _ _ this]
  show ?thesis by (simp add: pow2_def)
qed

lemma round_double_100_speed:
  "round_double (- 100 * (4691249611844267 / 140737488355328)) =
     Finite (- (7330077518506667 / 2199023255552))"
proof -
  have "round_half_even (\<bar>- 100 * (4691249611844267 / 140737488355328)\<bar> / pow2 (int 11 - 52)) =
      7330077518506667"
    by (rule round_half_even_down) (simp_all add: pow2_def)
  from round_double_eval [of 11 "- 100 * (4691249611844267 / 140737488355328)", OF _ _ this]
  show ?thesis by (simp add: pow2_def)
qed

lemma neg_float_exact:
  "\<bar>n\<bar> \<le> 2 ^ 53 \<Longrightarrow> bind (float n) (\<lambda>v. Inr (Finite (- v))) = Inr (Finite (- of_int n))"
  by (simp add: float_exact)

lemma speed_exact:
  assumes "0 < frames" and "frames \<le> 2 ^ 53" and "\<bar>pos\<bar> \<le> 2 ^ 53"
  shows "ProgressTimesAverageSpeed won pos frames =
     Inr (fmul (- of_int pos) (round_double (of_int pos / of_int frames)))"
proof -
  have f: "float frames = Inr (of_int frames)" using assms(1,2) by (intro float_exact) simp
  have p: "float pos = Inr (of_int pos)" using assms(3) by (rule float_exact)
  have n: "float (- pos) = Inr (of_int (- pos))" using assms(3) by (intro float_exact) simp
  show ?thesis
    using assms(1) by (simp add: ProgressTimesAverageSpeed_def truediv_def mul_def f p n)
qed

lemma speed_dvd:
  assumes "0 < frames" and "frames \<le> 2 ^ 53" and "\<bar>pos\<bar> \<le> 2 ^ 53"
    and "frames dvd pos" and "\<bar>pos * (pos div frames)\<bar> \<le> 2 ^ 53"
  shows "ProgressTimesAverageSpeed won pos frames =
     Inr (Finite (- of_int pos * (of_int pos / of_int frames)))"
proof -
  define k where "k = pos div frames"
  have pk: "pos = k * frames" using assms(4) by (simp add: k_def)
  have q: "real_of_int pos / real_of_int frames = of_int k"
    using assms(1) by (simp add: pk)
  have "\<bar>k\<bar> \<le> \<bar>k\<bar> * \<bar>frames\<bar>" using assms(1) by (simp add: mult_le_cancel_left1)
  also have "\<dots> = \<bar>pos\<bar>" by (simp add: pk abs_mult)
  finally have k: "\<bar>k\<bar> \<le> 2 ^ 53" using assms(3) by simp
  have "\<bar>- pos * k\<bar> \<le> 2 ^ 53" using assms(5) by (simp add: k_def)
  then have "round_double (of_int (- pos * k)) = Finite (of_int (- pos * k))"
    by (rule round_double_of_int)
  then have "fmul (- of_int pos) (round_double (of_int k)) = Finite (- of_int pos * of_int k)"
    by (simp add: fmul_def round_double_of_int [OF k])
  then show ?thesis
    by (simp add: speed_exact [OF assms(1-3)] q)
qed

subsection \<open>Claims about the fitness functions and the harness\<close>

text \<open>
  C6 (as amended). For \<open>\<bar>pos\<bar> \<le> 2 ^ 53\<close>, \<^verbatim>\<open>Progress\<close> returns \<open>- pos\<close>, so \<open>- 100\<close> on
  \<open>(False, 100, 50)\<close>. \<^verbatim>\<open>ProgressPlusTimeRemaining\<close> returns \<open>- (pos + 24000 - frames)\<close> on a
  win when that sum is within \<open>2 ^ 53\<close>, so \<open>- (3161 + 24000 - 1200)\<close> on \<open>(True, 3161, 1200)\<close>,
  and \<open>- pos\<close> otherwise, for \<open>\<bar>pos\<bar> \<le> 2 ^ 53\<close>. For \<open>0 < frames \<le> 2 ^ 53\<close> and
  \<open>\<bar>pos\<bar> \<le> 2 ^ 53\<close>, \<^verbatim>\<open>ProgressTimesAverageSpeed\<close> returns \<open>- pos * (pos / frames)\<close> in double
  arithmetic: the quotient rounded to a double, then the product rounded to a double. That
  is \<open>- pos * (pos / frames)\<close> itself when \<open>frames\<close> divides \<open>pos\<close> and the product is within
  \<open>2 ^ 53\<close>, so \<open>- 400\<close> on \<open>(False, 200, 100)\<close>.
\<close>

theorem fitness_functions:
  "(\<bar>pos\<bar> \<le> 2 ^ 53 \<longrightarrow> Progress won pos frames = Inr (Finite (- of_int pos))) \<and>
   Progress False 100 50 = Inr (Finite (- 100)) \<and>
   (\<bar>pos + 24000 - frames\<bar> \<le> 2 ^ 53 \<longrightarrow>
      ProgressPlusTimeRemaining True pos frames = Inr (Finite (- of_int (pos + 24000 - frames)))) \<and>
   ProgressPlusTimeRemaining True 3161 1200 = Inr (Finite (- (3161 + 24000 - 1200))) \<and>
   (\<bar>pos\<bar> \<le> 2 ^ 53 \<longrightarrow>
      ProgressPlusTimeRemaining False pos frames = Inr (Finite (- of_int pos))) \<and>
   (0 < frames \<and> frames \<le> 2 ^ 53 \<and> \<bar>pos\<bar> \<le> 2 ^ 53 \<longrightarrow>
      ProgressTimesAverageSpeed won pos frames =
        Inr (fmul (- of_int pos) (round_double (of_int pos / of_int frames)))) \<and>
   (0 < frames \<and> frames \<le> 2 ^ 53 \<and> \<bar>pos\<bar> \<le> 2 ^ 53 \<and> frames dvd pos \<and>
      \<bar>pos * (pos div frames)\<bar> \<le> 2 ^ 53 \<longrightarrow>
      ProgressTimesAverageSpeed won pos frames =
        Inr (Finite (- of_int pos * (of_int pos / of_int frames)))) \<and>
   ProgressTimesAverageSpeed False 200 100 = Inr (Finite (- 400))"
proof -
  have a: "\<bar>pos\<bar> \<le> 2 ^ 53 \<longrightarrow> Progress won pos frames = Inr (Finite (- of_int pos))"
    by (simp add: Progress_def neg_float_exact)
  have b: "Progress False 100 50 = Inr (Finite (- 100))"
    using neg_float_exact [of 100] by (simp add: Progress_def)
  have c: "\<bar>pos + 24000 - frames\<bar> \<le> 2 ^ 53 \<longrightarrow>
      ProgressPlusTimeRemaining True pos frames = Inr (Finite (- of_int (pos + 24000 - frames)))"
    using neg_float_exact [of "pos + 24000 - frames"] by (simp add: ProgressPlusTimeRemaining_def)
  have d: "ProgressPlusTimeRemaining True 3161 1200 = Inr (Finite (- (3161 + 24000 - 1200)))"
    using neg_float_exact [of 25961] by (simp add: ProgressPlusTimeRemaining_def)
  have e: "\<bar>pos\<bar> \<le> 2 ^ 53 \<longrightarrow>
      ProgressPlusTimeRemaining False pos frames = Inr (Finite (- of_int pos))"
    by (simp add: ProgressPlusTimeRemaining_def neg_float_exact)
  have f: "0 < frames \<and> frames \<le> 2 ^ 53 \<and> \<bar>pos\<bar> \<le> 2 ^ 53 \<longrightarrow>
      ProgressTimesAverageSpeed won pos frames =
        Inr (fmul (- of_int pos) (round_double (of_int pos / of_int frames)))"
    using speed_exact by blast
  have g: "0 < frames \<and> frames \<le> 2 ^ 53 \<and> \<bar>pos\<bar> \<le> 2 ^ 53 \<and> frames dvd pos \<and>
      \<bar>pos * (pos div frames)\<bar> \<le> 2 ^ 53 \<longrightarrow>
      ProgressTimesAverageSpeed won pos frames =
        Inr (Finite (- of_int pos * (of_int pos / of_int frames)))"
    using speed_dvd by blast
  have h: "ProgressTimesAverageSpeed False 200 100 = Inr (Finite (- 400))"
    using speed_dvd [of 100 200 False] by simp
  from a b c d e f g h show ?thesis by (intro conjI)
qed

text \<open>
  Instances; the last one is rounded twice: \<open>100 / 3\<close> to \<open>4691249611844267 / 2 ^ 47\<close>, and the
  product to \<open>- 7330077518506667 / 2 ^ 41\<close>, the double Python prints as
  \<^verbatim>\<open>-3333.3333333333335\<close>.
\<close>

theorem fitness_functions_witness:
  "Progress True 3161 1200 = Inr (Finite (- 3161)) \<and>
   ProgressPlusTimeRemaining True 3161 1200 = Inr (Finite (- 25961)) \<and>
   ProgressPlusTimeRemaining False 3161 1200 = Inr (Finite (- 3161)) \<and>
   ProgressTimesAverageSpeed True 3600 1200 = Inr (Finite (- 10800)) \<and>
   ProgressTimesAverageSpeed True 100 3 = Inr (Finite (- (7330077518506667 / 2199023255552)))"
proof -
  have a: "Progress True 3161 1200 = Inr (Finite (- 3161)) \<and>
      ProgressPlusTimeRemaining True 3161 1200 = Inr (Finite (- 25961)) \<and>
      ProgressPlusTimeRemaining False 3161 1200 = Inr (Finite (- 3161))"
    using fitness_functions [of 3161 True 1200] by simp
  have b: "ProgressTimesAverageSpeed True 3600 1200 = Inr (Finite (- 10800))"
    using fitness_functions [of 3600 True 1200, THEN conjunct2, THEN conjunct2, THEN conjunct2,
        THEN conjunct2, THEN conjunct2, THEN conjunct2, THEN conjunct1]
    by simp
  have "fmul (- 100) (round_double (100 / 3)) = Finite (- (7330077518506667 / 2199023255552))"
    using round_double_100_speed by (simp add: fmul_def round_double_100_3)
  then have c: "ProgressTimesAverageSpeed True 100 3 =
      Inr (Finite (- (7330077518506667 / 2199023255552)))"
    using fitness_functions [of 100 True 3, THEN conjunct2, THEN conjunct2, THEN conjunct2,
        THEN conjunct2, THEN conjunct2, THEN conjunct1]
    by simp
  from a b c show ?thesis by simp
qed

text \<open>
  C6 as stated has \<^verbatim>\<open>Progress\<close> return \<open>- pos\<close> for all arguments, and
  \<^verbatim>\<open>ProgressTimesAverageSpeed\<close> return \<open>- pos * (pos / frames)\<close>. \<^verbatim>\<open>float(2 ** 53 + 1)\<close> is
  \<open>2 ^ 53\<close>: the tie goes to the even neighbour. On \<open>(100, 3)\<close> the result is the double
  \<open>- 7330077518506667 / 2 ^ 41\<close>, not \<open>- 10000 / 3\<close>.
\<close>

theorem Progress_rounds_above_2_53:
  "Progress False 9007199254740993 50 = Inr (Finite (- 9007199254740992)) \<and>
   Progress False 9007199254740993 50 \<noteq> Inr (Finite (- 9007199254740993)) \<and>
   ProgressTimesAverageSpeed False 100 3 =
     Inr (Finite (- (7330077518506667 / 2199023255552))) \<and>
   ProgressTimesAverageSpeed False 100 3 \<noteq> Inr (Finite (- 100 * (100 / 3)))"
proof -
  have "fmul (- 100) (round_double (100 / 3)) = Finite (- (7330077518506667 / 2199023255552))"
    using round_double_100_speed by (simp add: fmul_def round_double_100_3)
  then have "ProgressTimesAverageSpeed False 100 3 =
      Inr (Finite (- (7330077518506667 / 2199023255552)))"
    using speed_exact [of 3 100 False] by simp
  then show ?thesis
    by (simp add: Progress_def float_def round_double_above_2_53)
qed

lemma run_movie_raises: "run_movie emulator fm2 = Inl TypeError"
  by (simp add: run_movie_def write_binary_def)

text \<open>
  C2. The claim: when no line of the emulator's output matches the outcome pattern,
  \<^verbatim>\<open>SMBMI.compile\<close> returns \<open>state = ERROR\<close>, \<open>time = +infinity\<close>, and no exception leaves
  it. The code: \<^verbatim>\<open>compile\<close> returns no result. When the representation has decoded the
  configuration it raises \<^verbatim>\<open>TypeError\<close>, whatever the emulator would print: \<^verbatim>\<open>run_movie\<close>
  writes the movie, a \<^verbatim>\<open>str\<close>, to a file opened in binary mode, and searches the captured
  \<^verbatim>\<open>bytes\<close> with a \<^verbatim>\<open>str\<close> pattern; \<^verbatim>\<open>compile\<close> handles \<^verbatim>\<open>ValueError\<close> only.
\<close>

theorem compile_raises_TypeError:
  "compile interpret fitness_function emulator cfg =
     (case interpret cfg of Inl e \<Rightarrow> Inl e | Inr presses \<Rightarrow> Inl TypeError) \<and>
   write_binary (Text fm2) = Inl TypeError \<and>
   re_search (Bytes stdout) = Inl TypeError"
  by (simp add: compile_def run_movie_raises write_binary_def re_search_def bind_def
      split: sum.splits prod.splits)

text \<open>An emulator whose output has no outcome line: the harness raises, it does not report.\<close>

theorem compile_raises_TypeError_witness:
  "compile DurationRepresentation_interpret Progress
     (\<lambda>fm2. (''Loading movie'' @ [CHR 0x0A] @ ''won 3161 12x'' @ [CHR 0x0A], ''fceux: error''))
     two_moves_cfg = Inl TypeError"
  using duration_interpret [OF two_moves_cfg_ok]
    compile_raises_TypeError [of DurationRepresentation_interpret Progress
      "\<lambda>fm2. (''Loading movie'' @ [CHR 0x0A] @ ''won 3161 12x'' @ [CHR 0x0A],
        ''fceux: error'')" two_moves_cfg]
  by simp

text \<open>The pattern itself, on that output and on one with an outcome line.\<close>

lemma search_lines_no_match:
  "search_lines (''Loading movie'' @ [CHR 0x0A] @ ''won 3161 12x'' @ [CHR 0x0A]) = None"
  by (simp add: search_lines_def List.map_filter_simps match_outcome_def match_fields_def
      is_digit_def)

lemma search_lines_won:
  "search_lines (''frame 1200'' @ [CHR 0x0A] @ ''won 3161 1200'' @ [CHR 0x0A]) =
     Some (''won'', ''3161'', ''1200'')"
  by (simp add: search_lines_def List.map_filter_simps match_outcome_def match_fields_def
      is_digit_def)

end
